theory Spec2Isabelle
  imports Complex_Main
begin

section \<open>Strings, characters and integers of the Python source\<close>

text \<open>
  A Python \<open>str\<close> is modelled as a \<open>string\<close>: a list of 8-bit characters, read as
  the code points U+0000 to U+00FF. The character classes below are Python's on that range.
  Python's integers are unbounded and modelled as \<open>int\<close>; the interpreter's configurable
  limit on the number of digits that \<open>int()\<close> converts is not modelled.
  A \<open>ValueError\<close> is a value carrying the message of the exception.
\<close>

datatype error = ValueError string

text \<open>\<open>str.isspace\<close> of one character, which \<open>str.strip()\<close> and the pattern \<open>\s\<close> use.\<close>

definition is_space :: "char \<Rightarrow> bool" where
  "is_space c = (let n = (of_char c :: nat) in
     (9 \<le> n \<and> n \<le> 13) \<or> (28 \<le> n \<and> n \<le> 32) \<or> n = 133 \<or> n = 160)"

text \<open>A decimal digit \<open>0\<close> to \<open>9\<close>: what the pattern \<open>\d\<close> matches and \<open>int()\<close> converts.\<close>

definition is_decimal :: "char \<Rightarrow> bool" where
  "is_decimal c = (let n = (of_char c :: nat) in 48 \<le> n \<and> n \<le> 57)"

text \<open>
  \<open>str.isdigit\<close> of one character: the decimal digits and the superscript digits
  U+00B2, U+00B3 and U+00B9, which \<open>int()\<close> refuses.
\<close>

definition is_digit_char :: "char \<Rightarrow> bool" where
  "is_digit_char c = (let n = (of_char c :: nat) in
     is_decimal c \<or> n = 178 \<or> n = 179 \<or> n = 185)"

text \<open>\<open>s.isdigit()\<close>: every character is a digit and there is at least one.\<close>

definition isdigit :: "string \<Rightarrow> bool" where
  "isdigit s = (s \<noteq> [] \<and> list_all is_digit_char s)"

text \<open>\<open>s.strip()\<close>: leading and trailing whitespace removed.\<close>

definition strip :: "string \<Rightarrow> string" where
  "strip s = rev (dropWhile is_space (rev (dropWhile is_space s)))"

text \<open>\<open>s.split(sep)\<close> for a separator of one character: the parts, empty ones included.\<close>

fun split_on :: "char \<Rightarrow> string \<Rightarrow> string list" where
  "split_on sep [] = [[]]"
| "split_on sep (c # cs) =
     (if c = sep then [] # split_on sep cs
      else (case split_on sep cs of [] \<Rightarrow> [[c]] | p # ps \<Rightarrow> (c # p) # ps))"

text \<open>
  \<open>int(s)\<close> for a string that passed \<open>isdigit()\<close> or was matched by \<open>\d+\<close>, the only
  strings the program converts: the decimal value when every character is a decimal digit,
  else the \<open>ValueError\<close> of \<open>int()\<close>, whose message quotes the string.
\<close>

definition digit_value :: "char \<Rightarrow> int" where
  "digit_value c = int (of_char c) - 48"

definition decimal_value :: "string \<Rightarrow> int" where
  "decimal_value s = foldl (\<lambda>a c. 10 * a + digit_value c) 0 s"

definition py_int :: "string \<Rightarrow> error + int" where
  "py_int s =
     (if s \<noteq> [] \<and> list_all is_decimal s then Inr (decimal_value s)
      else Inl (ValueError (''invalid literal for int() with base 10: '' @ [CHR 0x27] @ s @ [CHR 0x27])))"

text \<open>\<open>[int(part) for part in parts]\<close>: the first conversion that raises ends the comprehension.\<close>

fun int_all :: "string list \<Rightarrow> error + int list" where
  "int_all [] = Inr []"
| "int_all (p # ps) =
     (case py_int p of
        Inl e \<Rightarrow> Inl e
      | Inr n \<Rightarrow> (case int_all ps of Inl e \<Rightarrow> Inl e | Inr ns \<Rightarrow> Inr (n # ns)))"

section \<open>The duration pattern\<close>

text \<open>
  \<open>DURATION_PATTERN\<close> is
  \<^verbatim>\<open>^\s*(?:(?P<hours>\d+)h)?\s*(?:(?P<minutes>\d+)m)?\s*(?:(?P<seconds>\d+)s)?\s*$\<close>
  with \<open>re.IGNORECASE\<close>. An optional group \<^verbatim>\<open>(?:(\d+)x)?\<close> matches the longest run of
  decimal digits when that run is not empty and the letter follows it, in either case, and
  matches nothing otherwise; a group that can match must match, since no later part of
  the pattern accepts a digit followed by that letter. \<open>match_group\<close> returns the captured
  digits and the rest of the input.
\<close>

definition match_group :: "char \<Rightarrow> char \<Rightarrow> string \<Rightarrow> string option \<times> string" where
  "match_group lo up s =
     (let ds = takeWhile is_decimal s in
      case dropWhile is_decimal s of
        [] \<Rightarrow> (None, s)
      | c # rest \<Rightarrow> if ds \<noteq> [] \<and> (c = lo \<or> c = up) then (Some ds, rest) else (None, s))"

text \<open>\<open>DURATION_PATTERN.match(value)\<close>: the three named groups, or \<open>None\<close> for no match.\<close>

definition DURATION_PATTERN_match :: "string \<Rightarrow> (string option \<times> string option \<times> string option) option" where
  "DURATION_PATTERN_match v =
     (let (hours, r1) = match_group (CHR ''h'') (CHR ''H'') (dropWhile is_space v);
          (minutes, r2) = match_group (CHR ''m'') (CHR ''M'') (dropWhile is_space r1);
          (seconds, r3) = match_group (CHR ''s'') (CHR ''S'') (dropWhile is_space r2)
      in if dropWhile is_space r3 = [] then Some (hours, minutes, seconds) else None)"

text \<open>\<open>int(match.group(name) or 0)\<close>: a group that did not take part counts as zero.\<close>

definition group_int :: "string option \<Rightarrow> int" where
  "group_int g = (case g of None \<Rightarrow> 0 | Some ds \<Rightarrow> decimal_value ds)"

section \<open>parse_duration and validate_duration\<close>

definition parse_duration :: "string \<Rightarrow> error + int" where
  "parse_duration value0 =
     (let v = strip value0 in
      if v = [] then Inl (ValueError ''Empty duration'')
      else if CHR '':'' \<in> set v then
        (let parts = map strip (split_on (CHR '':'') v) in
         if \<not> list_all isdigit parts then Inl (ValueError (''Invalid time format: '' @ v))
         else (case int_all parts of
                 Inl e \<Rightarrow> Inl e
               | Inr [minutes, seconds] \<Rightarrow> Inr (minutes * 60 + seconds)
               | Inr [hours, minutes, seconds] \<Rightarrow> Inr (hours * 3600 + minutes * 60 + seconds)
               | Inr _ \<Rightarrow> Inl (ValueError (''Invalid time format: '' @ v))))
      else if isdigit v then py_int v
      else (case DURATION_PATTERN_match v of
              None \<Rightarrow> Inl (ValueError (''Invalid duration: '' @ v))
            | Some (hours, minutes, seconds) \<Rightarrow>
                Inr (group_int hours * 3600 + group_int minutes * 60 + group_int seconds)))"

definition validate_duration :: "int \<Rightarrow> error + unit" where
  "validate_duration seconds =
     (if seconds \<le> 0 then Inl (ValueError ''Duration must be greater than 0'') else Inr ())"

section \<open>format_time\<close>

text \<open>
  Clock readings, elapsed and remaining time are Python floats. They are modelled as real
  numbers: the arithmetic of the model is exact, and the rounding of IEEE doubles, infinities
  and NaN are outside it.
\<close>

text \<open>\<open>int(x)\<close> of a float: truncation toward zero.\<close>

definition py_trunc :: "real \<Rightarrow> int" where
  "py_trunc x = (if 0 \<le> x then \<lfloor>x\<rfloor> else \<lceil>x\<rceil>)"

text \<open>The decimal digits of a natural number, as \<open>str()\<close> and the \<open>d\<close> format write them.\<close>

definition digit_char :: "nat \<Rightarrow> char" where
  "digit_char d = char_of (48 + d)"

function decimal_digits :: "nat \<Rightarrow> string" where
  "decimal_digits n =
     (if n < 10 then [digit_char n] else decimal_digits (n div 10) @ [digit_char (n mod 10)])"
  by pat_completeness auto
termination
  by (relation "measure (\<lambda>n. n)") auto

declare decimal_digits.simps [simp del]

text \<open>
  The format \<open>{n:02d}\<close>: at least two characters, padded with zeros on the left; the sign
  of a negative number counts in the width and stands before the padding.
\<close>

definition fmt_02d :: "int \<Rightarrow> string" where
  "fmt_02d n =
     (if n < 0
      then (let ds = decimal_digits (nat (- n)) in CHR ''-'' # replicate (1 - length ds) (CHR ''0'') @ ds)
      else (let ds = decimal_digits (nat n) in replicate (2 - length ds) (CHR ''0'') @ ds))"

definition format_time :: "real \<Rightarrow> string" where
  "format_time total_seconds0 =
     (let total_seconds = max 0 (py_trunc (total_seconds0 + 0.5));
          hours = total_seconds div 3600;
          minutes = (total_seconds mod 3600) div 60;
          seconds = total_seconds mod 60
      in if hours > 0 then fmt_02d hours @ '':'' @ fmt_02d minutes @ '':'' @ fmt_02d seconds
         else fmt_02d minutes @ '':'' @ fmt_02d seconds)"

text \<open>The two decimal digits of a number from 0 to 99, for stating how a clock field is written.\<close>

definition two_digits :: "int \<Rightarrow> string" where
  "two_digits k = [digit_char (nat (k div 10)), digit_char (nat (k mod 10))]"

section \<open>build_header\<close>

text \<open>
  The panel that \<open>build_header\<close> returns is modelled by what it is built from: the clock
  string that \<open>render_big_time\<close> draws with the glyph table, the label, the percentage and
  the status word.
\<close>

record header =
  h_time :: string
  h_label :: string
  h_percent :: real
  h_status :: string

definition build_header :: "string \<Rightarrow> real \<Rightarrow> real \<Rightarrow> bool \<Rightarrow> header" where
  "build_header label remaining total_time is_paused =
     (let percent = (if total_time = 0 then 0 else min 100 ((1 - remaining / total_time) * 100));
          time_text = format_time remaining;
          status = (if is_paused then ''Paused'' else ''Running'')
      in \<lparr>h_time = time_text, h_label = label, h_percent = percent, h_status = status\<rparr>)"

section \<open>run_timer\<close>

text \<open>The variables that the loop of \<open>run_timer\<close> updates.\<close>

record timer_state =
  start :: real
  elapsed_before_pause :: real
  paused :: bool

text \<open>\<open>str.lower\<close>, on the code points U+0000 to U+00FF.\<close>

definition lower_char :: "char \<Rightarrow> char" where
  "lower_char c = (let n = (of_char c :: nat) in
     if (65 \<le> n \<and> n \<le> 90) \<or> (192 \<le> n \<and> n \<le> 222 \<and> n \<noteq> 215) then char_of (n + 32) else c)"

definition lower :: "string \<Rightarrow> string" where
  "lower s = map lower_char s"

text \<open>
  The key handling of one iteration (\<open>if key: ...\<close>). \<open>read_key\<close> returns \<open>None\<close> or a
  string, which is empty at the end of the input; both are false in \<open>if key\<close>. The result
  \<open>None\<close> is the \<open>return\<close> of the quit key, else the state after the key.
\<close>

definition handle_key :: "string option \<Rightarrow> real \<Rightarrow> timer_state \<Rightarrow> timer_state option" where
  "handle_key key now st =
     (case key of
        None \<Rightarrow> Some st
      | Some k0 \<Rightarrow>
          if k0 = [] then Some st
          else (let k = lower k0 in
            if k = ''q'' then None
            else (let st1 = (if k = ''p'' \<or> k = '' '' then
                               (if paused st then st\<lparr>start := now, paused := False\<rparr>
                                else st\<lparr>elapsed_before_pause := elapsed_before_pause st + (now - start st),
                                        paused := True\<rparr>)
                             else st);
                      st2 = (if k = ''s'' \<and> paused st1 then st1\<lparr>start := now, paused := False\<rparr> else st1)
                  in Some st2)))"

text \<open>\<open>elapsed\<close> as the loop computes it after the key, from the state and the clock reading.\<close>

definition elapsed_at :: "timer_state \<Rightarrow> real \<Rightarrow> real" where
  "elapsed_at st now =
     (if paused st then elapsed_before_pause st
      else elapsed_before_pause st + (now - start st))"

text \<open>
  One iteration of the loop that reaches the redraw, recorded with the values of the loop's
  variables there: the clock reading, the state after the key, \<open>elapsed\<close>, \<open>remaining\<close>, the
  \<open>completed\<close> amount and the total of the progress task, and the header.
\<close>

record iteration =
  it_now :: real
  it_state :: timer_state
  it_elapsed :: real
  it_remaining :: real
  it_completed :: real
  it_total :: int
  it_header :: header

text \<open>
  How a run ends: the quit key returned, the countdown expired (\<open>break\<close>), or the readings
  given to the model are used up and the loop is still running in the state it carries.
\<close>

datatype ending = Quit | Expired | StillRunning timer_state

text \<open>
  The loop \<open>while True\<close>. Each iteration reads the monotonic clock and the keyboard once;
  the model takes these readings as a list, one pair for each iteration, and returns the
  iterations that redrew the screen and how the run ended. \<open>time.sleep(tick)\<close> acts on the
  later readings of the clock only.
\<close>

fun run_loop :: "int \<Rightarrow> string \<Rightarrow> timer_state \<Rightarrow> (real \<times> string option) list \<Rightarrow> iteration list \<times> ending" where
  "run_loop duration label st [] = ([], StillRunning st)"
| "run_loop duration label st ((now, key) # readings) =
     (case handle_key key now st of
        None \<Rightarrow> ([], Quit)
      | Some st' \<Rightarrow>
          (let elapsed = elapsed_at st' now;
               remaining = real_of_int duration - elapsed;
               it = \<lparr>it_now = now, it_state = st', it_elapsed = elapsed, it_remaining = remaining,
                     it_completed = min elapsed (real_of_int duration), it_total = duration,
                     it_header = build_header label remaining (real_of_int duration) (paused st')\<rparr>
           in if remaining \<le> 0 then ([it], Expired)
              else (case run_loop duration label st' readings of (its, e) \<Rightarrow> (it # its, e))))"

text \<open>
  \<open>run_timer\<close>: the first reading of the clock is \<open>start\<close>; the run is what the loop did,
  the refresh rate given to the live display, and the message printed after the loop,
  which the \<open>return\<close> of the quit key skips.
\<close>

record run =
  refresh_per_second :: int
  iterations :: "iteration list"
  ended :: ending
  message :: "string option"

definition run_timer :: "int \<Rightarrow> string \<Rightarrow> real \<Rightarrow> real \<Rightarrow> (real \<times> string option) list \<Rightarrow> run" where
  "run_timer duration label tick t0 readings =
     (case run_loop duration label \<lparr>start = t0, elapsed_before_pause = 0, paused = False\<rparr> readings of
        (its, e) \<Rightarrow>
          \<lparr>refresh_per_second = max 4 (py_trunc (1 / max tick 0.05)),
           iterations = its,
           ended = e,
           message = (if e = Expired then Some (''Time'' @ [CHR 0x27] @ ''s up!'') else None)\<rparr>)"

section \<open>main\<close>

text \<open>
  \<open>main\<close> raises \<open>typer.BadParameter\<close> or returns after \<open>run_timer\<close>. The command-line
  library turns a \<open>BadParameter\<close> into a usage error with exit status 2, and a normal
  return into exit status 0; a run that is still going has no exit status yet.
\<close>

datatype outcome = BadParameter string | Returned run

definition main :: "string \<Rightarrow> string \<Rightarrow> real \<Rightarrow> real \<Rightarrow> (real \<times> string option) list \<Rightarrow> outcome" where
  "main duration label tick t0 readings =
     (case parse_duration duration of
        Inl (ValueError msg) \<Rightarrow> BadParameter msg
      | Inr seconds \<Rightarrow>
          (case validate_duration seconds of
             Inl (ValueError msg) \<Rightarrow> BadParameter msg
           | Inr _ \<Rightarrow>
               if tick \<le> 0 then BadParameter ''--tick must be greater than 0''
               else Returned (run_timer seconds label tick t0 readings)))"

definition exit_status :: "outcome \<Rightarrow> int option" where
  "exit_status out =
     (case out of
        BadParameter _ \<Rightarrow> Some 2
      | Returned r \<Rightarrow> (case ended r of StillRunning _ \<Rightarrow> None | _ \<Rightarrow> Some 0))"

definition shown :: "outcome \<Rightarrow> iteration list" where
  "shown out = (case out of BadParameter _ \<Rightarrow> [] | Returned r \<Rightarrow> iterations r)"

section \<open>The grammars of the specification\<close>

text \<open>
  The specification names three grammars, tried in this order. They are written here from
  its words, to be compared with \<open>parse_duration\<close>.

  A string of digits: not empty, every character a decimal digit.
\<close>

definition all_digits :: "string \<Rightarrow> bool" where
  "all_digits s = (s \<noteq> [] \<and> list_all is_decimal s)"

text \<open>
  First grammar: colon-separated integers \<open>mm:ss\<close> or \<open>hh:mm:ss\<close>, each component all
  digits (up to the whitespace around it), converted positionally.
\<close>

definition spec_colon_grammar :: "string \<Rightarrow> int option" where
  "spec_colon_grammar v =
     (case map strip (split_on (CHR '':'') v) of
        [m, s] \<Rightarrow>
          if all_digits m \<and> all_digits s then Some (decimal_value m * 60 + decimal_value s) else None
      | [h, m, s] \<Rightarrow>
          if all_digits h \<and> all_digits m \<and> all_digits s
          then Some (decimal_value h * 3600 + decimal_value m * 60 + decimal_value s) else None
      | _ \<Rightarrow> None)"

text \<open>Second grammar: a bare non-negative integer, read as seconds.\<close>

definition spec_integer_grammar :: "string \<Rightarrow> int option" where
  "spec_integer_grammar v = (if all_digits v then Some (decimal_value v) else None)"

text \<open>
  Third grammar: the compound suffix form. One group is empty or digits followed by its
  letter in either case; the string is the hours, minutes and seconds groups in this order,
  with whitespace before, between and after them. A missing group counts as zero.
\<close>

definition group_form :: "char \<Rightarrow> char \<Rightarrow> string \<Rightarrow> string option \<Rightarrow> bool" where
  "group_form lo up g cap =
     ((g = [] \<and> cap = None) \<or>
      (\<exists>ds c. ds \<noteq> [] \<and> list_all is_decimal ds \<and> (c = lo \<or> c = up) \<and> g = ds @ [c] \<and> cap = Some ds))"

definition pattern_form :: "string \<Rightarrow> string option \<Rightarrow> string option \<Rightarrow> string option \<Rightarrow> bool" where
  "pattern_form v hours minutes seconds =
     (\<exists>w0 g1 w1 g2 w2 g3 w3.
        v = w0 @ g1 @ w1 @ g2 @ w2 @ g3 @ w3 \<and>
        list_all is_space w0 \<and> list_all is_space w1 \<and> list_all is_space w2 \<and> list_all is_space w3 \<and>
        group_form (CHR ''h'') (CHR ''H'') g1 hours \<and>
        group_form (CHR ''m'') (CHR ''M'') g2 minutes \<and>
        group_form (CHR ''s'') (CHR ''S'') g3 seconds)"

definition spec_suffix_grammar :: "string \<Rightarrow> int \<Rightarrow> bool" where
  "spec_suffix_grammar v n =
     (\<exists>h m s. pattern_form v h m s \<and> n = group_int h * 3600 + group_int m * 60 + group_int s)"

text \<open>The three grammars in order: the first that accepts the string gives the value.\<close>

definition spec_parse :: "string \<Rightarrow> int \<Rightarrow> bool" where
  "spec_parse v n =
     (case spec_colon_grammar v of
        Some k \<Rightarrow> n = k
      | None \<Rightarrow> (case spec_integer_grammar v of
                   Some k \<Rightarrow> n = k
                 | None \<Rightarrow> spec_suffix_grammar v n))"

text \<open>
  For the proof that the matcher accepts every string of the suffix form: an input that is
  empty or starts with a group of one of the letters \<open>L\<close>.
\<close>

definition other_group :: "char set \<Rightarrow> string \<Rightarrow> bool" where
  "other_group L x =
     (x = [] \<or> (\<exists>ds c r. x = ds @ c # r \<and> ds \<noteq> [] \<and> list_all is_decimal ds \<and> \<not> is_decimal c \<and> c \<in> L))"

section \<open>Definitions for the claims about the loop\<close>

text \<open>The record of an iteration, from the state after the key and the clock reading.\<close>

definition iteration_of :: "int \<Rightarrow> string \<Rightarrow> timer_state \<Rightarrow> real \<Rightarrow> iteration" where
  "iteration_of duration label st now =
     \<lparr>it_now = now, it_state = st, it_elapsed = elapsed_at st now,
      it_remaining = real_of_int duration - elapsed_at st now,
      it_completed = min (elapsed_at st now) (real_of_int duration), it_total = duration,
      it_header = build_header label (real_of_int duration - elapsed_at st now)
                    (real_of_int duration) (paused st)\<rparr>"

text \<open>
  The time spent running, from the words of the specification: given an instant, whether
  the timer was paused then, and the later instants each with whether the timer was paused
  from then on, the sum of the lengths of the intervals that began running. An interval
  that began paused counts as zero.
\<close>

fun spec_running_time :: "real \<Rightarrow> bool \<Rightarrow> (real \<times> bool) list \<Rightarrow> real" where
  "spec_running_time t p [] = 0"
| "spec_running_time t p ((t', p') # rest) = (if p then 0 else t' - t) + spec_running_time t' p' rest"

text \<open>The instant of an iteration and whether the timer is paused after its key.\<close>

definition mode_at :: "iteration \<Rightarrow> real \<times> bool" where
  "mode_at it = (it_now it, paused (it_state it))"

section \<open>Lemmas about strings and the parser\<close>

lemma decimal_not_space: "is_decimal c \<Longrightarrow> \<not> is_space c"
  by (auto simp: is_decimal_def is_space_def Let_def)

lemma decimal_is_digit: "is_decimal c \<Longrightarrow> is_digit_char c"
  by (simp add: is_digit_char_def Let_def)

lemma colon_not_space: "\<not> is_space (CHR '':'')"
  by (simp add: is_space_def)

lemma colon_not_decimal: "\<not> is_decimal (CHR '':'')"
  by (simp add: is_decimal_def)

lemma dropWhile_skip: "list_all P ws \<Longrightarrow> \<not> P x \<Longrightarrow> dropWhile P (ws @ x # xs) = x # xs"
  by (induction ws) auto

lemma dropWhile_all: "list_all P ws \<Longrightarrow> dropWhile P ws = []"
  by (induction ws) auto

lemma strip_core:
  assumes "list_all is_space w1" "list_all is_space w2" "s \<noteq> []"
    "\<not> is_space (hd s)" "\<not> is_space (last s)"
  shows "strip (w1 @ s @ w2) = s"
proof -
  have a: "dropWhile is_space (w1 @ s @ w2) = s @ w2"
    using assms by (cases s) (simp_all add: dropWhile_skip)
  have "list_all is_space (rev w2)" using assms by (simp add: list_all_iff)
  then have b: "dropWhile is_space (rev w2 @ rev s) = rev s"
    using assms by (cases s rule: rev_cases) (simp_all add: dropWhile_skip)
  show ?thesis by (simp add: strip_def a b)
qed

lemma strip_spaces: "list_all is_space w \<Longrightarrow> strip w = []"
  by (simp add: strip_def dropWhile_all)

lemma strip_decimal:
  assumes "list_all is_space w1" "list_all is_space w2" "list_all is_decimal s"
  shows "strip (w1 @ s @ w2) = s"
proof (cases "s = []")
  case True
  with assms show ?thesis by (simp add: strip_spaces)
next
  case False
  with assms show ?thesis
    by (intro strip_core) (auto simp: list_all_iff intro!: decimal_not_space)
qed

lemma split_on_no_sep: "sep \<notin> set s \<Longrightarrow> split_on sep s = [s]"
  by (induction s) auto

lemma split_on_append: "sep \<notin> set a \<Longrightarrow> split_on sep (a @ sep # b) = a # split_on sep b"
  by (induction a) auto

lemma py_int_decimal: "s \<noteq> [] \<Longrightarrow> list_all is_decimal s \<Longrightarrow> py_int s = Inr (decimal_value s)"
  by (simp add: py_int_def)

lemma isdigit_decimal: "s \<noteq> [] \<Longrightarrow> list_all is_decimal s \<Longrightarrow> isdigit s"
  by (auto simp: isdigit_def list_all_iff intro: decimal_is_digit)

lemma parse_colon2:
  assumes m: "m \<noteq> []" "list_all is_decimal m" and s: "s \<noteq> []" "list_all is_decimal s"
    and w: "list_all is_space w1" "list_all is_space w2" "list_all is_space w3" "list_all is_space w4"
  shows "parse_duration (w1 @ m @ w2 @ '':'' @ w3 @ s @ w4) = Inr (60 * decimal_value m + decimal_value s)"
proof -
  let ?v = "m @ w2 @ '':'' @ w3 @ s"
  have hd: "\<not> is_space (hd ?v)" using m by (cases m) (auto dest: decimal_not_space)
  have la: "\<not> is_space (last ?v)" using s by (cases s rule: rev_cases) (auto dest: decimal_not_space)
  have st: "strip (w1 @ ?v @ w4) = ?v"
    using w hd la by (intro strip_core) auto
  have nc1: "CHR '':'' \<notin> set (m @ w2)"
    using m w colon_not_space colon_not_decimal by (auto simp: list_all_iff)
  have nc2: "CHR '':'' \<notin> set (w3 @ s)"
    using s w colon_not_space colon_not_decimal by (auto simp: list_all_iff)
  have sp: "split_on (CHR '':'') ?v = [m @ w2, w3 @ s]"
    using split_on_append[OF nc1, of "w3 @ s"] split_on_no_sep[OF nc2] by simp
  have s1: "strip (m @ w2) = m" using strip_decimal[of "[]" w2 m] m w by simp
  have s2: "strip (w3 @ s) = s" using strip_decimal[of w3 "[]" s] s w by simp
  have "parse_duration (w1 @ ?v @ w4) = Inr (60 * decimal_value m + decimal_value s)"
    unfolding parse_duration_def st Let_def sp
    using m s by (simp add: s1 s2 isdigit_decimal py_int_decimal)
  then show ?thesis by simp
qed

lemma match_group_sound:
  "match_group lo up s = (cap, r) \<Longrightarrow> \<exists>g. s = g @ r \<and> group_form lo up g cap"
proof -
  assume a: "match_group lo up s = (cap, r)"
  have split: "s = takeWhile is_decimal s @ dropWhile is_decimal s" by simp
  show ?thesis
  proof (cases "dropWhile is_decimal s")
    case Nil
    with a show ?thesis by (auto simp: match_group_def group_form_def)
  next
    case (Cons c rest)
    show ?thesis
    proof (cases "takeWhile is_decimal s \<noteq> [] \<and> (c = lo \<or> c = up)")
      case True
      with a Cons have c: "cap = Some (takeWhile is_decimal s)" "r = rest"
        by (auto simp: match_group_def)
      have "s = (takeWhile is_decimal s @ [c]) @ r" using split Cons c by simp
      moreover have "group_form lo up (takeWhile is_decimal s @ [c]) cap"
        using True c by (auto simp: group_form_def list_all_iff dest: set_takeWhileD)
      ultimately show ?thesis by blast
    next
      case False
      with a Cons have "cap = None" "r = s" by (auto simp: match_group_def)
      then show ?thesis by (auto simp: group_form_def)
    qed
  qed
qed

lemma spaces_split: "\<exists>w. v = w @ dropWhile is_space v \<and> list_all is_space w"
proof -
  have "v = takeWhile is_space v @ dropWhile is_space v" by simp
  moreover have "list_all is_space (takeWhile is_space v)"
    by (auto simp: list_all_iff dest: set_takeWhileD)
  ultimately show ?thesis by blast
qed

lemma pattern_sound:
  assumes "DURATION_PATTERN_match v = Some (h, m, s)"
  shows "pattern_form v h m s"
proof -
  obtain h' r1 where 1: "match_group (CHR ''h'') (CHR ''H'') (dropWhile is_space v) = (h', r1)"
    by (cases "match_group (CHR ''h'') (CHR ''H'') (dropWhile is_space v)")
  obtain m' r2 where 2: "match_group (CHR ''m'') (CHR ''M'') (dropWhile is_space r1) = (m', r2)"
    by (cases "match_group (CHR ''m'') (CHR ''M'') (dropWhile is_space r1)")
  obtain s' r3 where 3: "match_group (CHR ''s'') (CHR ''S'') (dropWhile is_space r2) = (s', r3)"
    by (cases "match_group (CHR ''s'') (CHR ''S'') (dropWhile is_space r2)")
  from assms 1 2 3 have eq: "h' = h" "m' = m" "s' = s" and e: "dropWhile is_space r3 = []"
    by (auto simp: DURATION_PATTERN_match_def split: if_splits)
  obtain w0 where w0: "v = w0 @ dropWhile is_space v" "list_all is_space w0" using spaces_split by blast
  obtain w1 where w1: "r1 = w1 @ dropWhile is_space r1" "list_all is_space w1" using spaces_split by blast
  obtain w2 where w2: "r2 = w2 @ dropWhile is_space r2" "list_all is_space w2" using spaces_split by blast
  obtain w3 where w3: "r3 = w3 @ dropWhile is_space r3" "list_all is_space w3" using spaces_split by blast
  obtain g1 where g1: "dropWhile is_space v = g1 @ r1" "group_form (CHR ''h'') (CHR ''H'') g1 h"
    using match_group_sound[OF 1] eq by blast
  obtain g2 where g2: "dropWhile is_space r1 = g2 @ r2" "group_form (CHR ''m'') (CHR ''M'') g2 m"
    using match_group_sound[OF 2] eq by blast
  obtain g3 where g3: "dropWhile is_space r2 = g3 @ r3" "group_form (CHR ''s'') (CHR ''S'') g3 s"
    using match_group_sound[OF 3] eq by blast
  have r3: "r3 = w3" using w3 e by simp
  have "v = w0 @ g1 @ w1 @ g2 @ w2 @ g3 @ w3"
    using w0(1) g1(1) w1(1) g2(1) w2(1) g3(1) r3 by metis
  then show ?thesis
    unfolding pattern_form_def using w0(2) w1(2) w2(2) w3(2) g1(2) g2(2) g3(2) by blast
qed

lemma dropWhile_spaces_append: "list_all is_space w \<Longrightarrow> dropWhile is_space (w @ x) = dropWhile is_space x"
  by (induction w) auto

lemma dropWhile_space_decimal:
  "ds \<noteq> [] \<Longrightarrow> list_all is_decimal ds \<Longrightarrow> dropWhile is_space (ds @ x) = ds @ x"
  by (cases ds) (auto dest: decimal_not_space)

lemma takeWhile_decimal_run:
  "list_all is_decimal ds \<Longrightarrow> \<not> is_decimal c \<Longrightarrow> takeWhile is_decimal (ds @ c # r) = ds"
  by (induction ds) auto

lemma dropWhile_decimal_run:
  "list_all is_decimal ds \<Longrightarrow> \<not> is_decimal c \<Longrightarrow> dropWhile is_decimal (ds @ c # r) = c # r"
  by (induction ds) auto

lemma match_group_run:
  assumes "ds \<noteq> []" "list_all is_decimal ds" "\<not> is_decimal c"
  shows "match_group lo up (ds @ c # r) =
           (if c = lo \<or> c = up then (Some ds, r) else (None, ds @ c # r))"
  using assms by (simp add: match_group_def takeWhile_decimal_run dropWhile_decimal_run)

lemma match_group_Nil: "match_group lo up [] = (None, [])"
  by (simp add: match_group_def)

lemma letters_not_decimal:
  "\<not> is_decimal (CHR ''h'')" "\<not> is_decimal (CHR ''H'')" "\<not> is_decimal (CHR ''m'')"
  "\<not> is_decimal (CHR ''M'')" "\<not> is_decimal (CHR ''s'')" "\<not> is_decimal (CHR ''S'')"
  by (simp_all add: is_decimal_def)

lemma other_group_mono: "other_group L x \<Longrightarrow> L \<subseteq> L' \<Longrightarrow> other_group L' x"
  unfolding other_group_def by blast

lemma match_group_other:
  "other_group L x \<Longrightarrow> lo \<notin> L \<Longrightarrow> up \<notin> L \<Longrightarrow> match_group lo up x = (None, x)"
  unfolding other_group_def by (auto simp: match_group_run match_group_Nil)

lemma group_stage:
  assumes g: "group_form lo up g cap" and w: "list_all is_space w"
    and nd: "\<not> is_decimal lo" "\<not> is_decimal up"
    and nxt: "other_group L (dropWhile is_space x)" "lo \<notin> L" "up \<notin> L"
  shows "\<exists>r. match_group lo up (dropWhile is_space (g @ w @ x)) = (cap, r) \<and>
             dropWhile is_space r = dropWhile is_space x"
    and "other_group (insert lo (insert up L)) (dropWhile is_space (g @ w @ x))"
proof -
  show "\<exists>r. match_group lo up (dropWhile is_space (g @ w @ x)) = (cap, r) \<and>
             dropWhile is_space r = dropWhile is_space x"
  proof (cases "g = []")
    case True
    with g have "cap = None" by (auto simp: group_form_def)
    with True w nxt show ?thesis
      by (simp add: dropWhile_spaces_append match_group_other)
  next
    case False
    with g obtain ds c where d: "ds \<noteq> []" "list_all is_decimal ds" "c = lo \<or> c = up"
      "g = ds @ [c]" "cap = Some ds"
      by (auto simp: group_form_def)
    have "\<not> is_decimal c" using d nd by auto
    with d w show ?thesis
      by (simp add: dropWhile_space_decimal match_group_run dropWhile_spaces_append)
  qed
  show "other_group (insert lo (insert up L)) (dropWhile is_space (g @ w @ x))"
  proof (cases "g = []")
    case True
    with w nxt show ?thesis
      by (auto simp: dropWhile_spaces_append intro: other_group_mono)
  next
    case False
    with g obtain ds c where d: "ds \<noteq> []" "list_all is_decimal ds" "c = lo \<or> c = up"
      "g = ds @ [c]" "cap = Some ds"
      by (auto simp: group_form_def)
    have "\<not> is_decimal c" using d nd by auto
    with d have "dropWhile is_space (g @ w @ x) = ds @ c # (w @ x)"
      by (simp add: dropWhile_space_decimal)
    with d \<open>\<not> is_decimal c\<close> show ?thesis
      unfolding other_group_def by blast
  qed
qed

lemma pattern_complete:
  assumes "pattern_form v h m s"
  shows "DURATION_PATTERN_match v = Some (h, m, s)"
proof -
  from assms obtain w0 g1 w1 g2 w2 g3 w3 where
    v: "v = w0 @ g1 @ w1 @ g2 @ w2 @ g3 @ w3" and
    w: "list_all is_space w0" "list_all is_space w1" "list_all is_space w2" "list_all is_space w3" and
    g1: "group_form (CHR ''h'') (CHR ''H'') g1 h" and
    g2: "group_form (CHR ''m'') (CHR ''M'') g2 m" and
    g3: "group_form (CHR ''s'') (CHR ''S'') g3 s"
    unfolding pattern_form_def by blast
  let ?x3 = "dropWhile is_space (g3 @ w3 @ [])"
  let ?x2 = "dropWhile is_space (g2 @ w2 @ g3 @ w3)"
  let ?x1 = "dropWhile is_space (g1 @ w1 @ g2 @ w2 @ g3 @ w3)"
  have o0: "other_group {} (dropWhile is_space [])" by (simp add: other_group_def)
  from group_stage[OF g3 w(4) letters_not_decimal(5,6) o0]
  obtain r3 where r3: "match_group (CHR ''s'') (CHR ''S'') ?x3 = (s, r3)" "dropWhile is_space r3 = []"
    and o3: "other_group {CHR ''s'', CHR ''S''} ?x3" by auto
  have o3': "other_group {CHR ''s'', CHR ''S''} (dropWhile is_space (g3 @ w3))" using o3 by simp
  from group_stage[OF g2 w(3) letters_not_decimal(3,4) o3']
  obtain r2 where r2: "match_group (CHR ''m'') (CHR ''M'') ?x2 = (m, r2)"
      "dropWhile is_space r2 = dropWhile is_space (g3 @ w3)"
    and o2: "other_group {CHR ''m'', CHR ''M'', CHR ''s'', CHR ''S''} ?x2" by auto
  from group_stage[OF g1 w(2) letters_not_decimal(1,2) o2]
  obtain r1 where r1: "match_group (CHR ''h'') (CHR ''H'') ?x1 = (h, r1)"
      "dropWhile is_space r1 = ?x2" by auto
  have x1: "dropWhile is_space v = ?x1" using v w by (simp add: dropWhile_spaces_append)
  show ?thesis
    unfolding DURATION_PATTERN_match_def x1 using r1 r2 r3 by simp
qed

lemma pattern_iff: "DURATION_PATTERN_match v = Some (h, m, s) \<longleftrightarrow> pattern_form v h m s"
  using pattern_sound pattern_complete by blast

lemma all_digits_isdigit: "all_digits s \<Longrightarrow> isdigit s"
  by (auto simp: all_digits_def isdigit_def list_all_iff intro: decimal_is_digit)

lemma digit_char_not_space: "is_digit_char c \<Longrightarrow> \<not> is_space c"
  by (auto simp: is_digit_char_def is_decimal_def is_space_def Let_def)

lemma group_form_digit_chars:
  assumes "group_form lo up g cap" "list_all is_digit_char g" "\<not> is_digit_char lo" "\<not> is_digit_char up"
  shows "g = []"
  using assms by (auto simp: group_form_def)

lemma letters_not_digit_char:
  "\<not> is_digit_char (CHR ''h'')" "\<not> is_digit_char (CHR ''H'')" "\<not> is_digit_char (CHR ''m'')"
  "\<not> is_digit_char (CHR ''M'')" "\<not> is_digit_char (CHR ''s'')" "\<not> is_digit_char (CHR ''S'')"
  by (simp_all add: is_digit_char_def is_decimal_def)

lemma spaces_digit_chars: "list_all is_space w \<Longrightarrow> list_all is_digit_char w \<Longrightarrow> w = []"
  by (cases w) (auto dest: digit_char_not_space)

lemma isdigit_not_pattern: "isdigit v \<Longrightarrow> \<not> pattern_form v h m s"
proof
  assume d: "isdigit v" and p: "pattern_form v h m s"
  from p obtain w0 g1 w1 g2 w2 g3 w3 where
    v: "v = w0 @ g1 @ w1 @ g2 @ w2 @ g3 @ w3" and
    w: "list_all is_space w0" "list_all is_space w1" "list_all is_space w2" "list_all is_space w3" and
    g: "group_form (CHR ''h'') (CHR ''H'') g1 h"
       "group_form (CHR ''m'') (CHR ''M'') g2 m"
       "group_form (CHR ''s'') (CHR ''S'') g3 s"
    unfolding pattern_form_def by blast
  from d v have a: "list_all is_digit_char w0" "list_all is_digit_char g1" "list_all is_digit_char w1"
    "list_all is_digit_char g2" "list_all is_digit_char w2" "list_all is_digit_char g3"
    "list_all is_digit_char w3"
    by (simp_all add: isdigit_def)
  have "w0 = []" "w1 = []" "w2 = []" "w3 = []"
    using w a by (simp_all add: spaces_digit_chars)
  moreover have "g1 = []" "g2 = []" "g3 = []"
    using g a letters_not_digit_char by (blast intro: group_form_digit_chars)+
  ultimately have "v = []" using v by simp
  with d show False by (simp add: isdigit_def)
qed

lemma group_form_no_colon: "group_form lo up g cap \<Longrightarrow> lo \<noteq> CHR '':'' \<Longrightarrow> up \<noteq> CHR '':'' \<Longrightarrow> CHR '':'' \<notin> set g"
  using colon_not_decimal by (auto simp: group_form_def list_all_iff)

lemma spaces_no_colon: "list_all is_space w \<Longrightarrow> CHR '':'' \<notin> set w"
  using colon_not_space by (auto simp: list_all_iff)

lemma pattern_no_colon: "pattern_form v h m s \<Longrightarrow> CHR '':'' \<notin> set v"
  unfolding pattern_form_def
  by (auto dest!: spaces_no_colon group_form_no_colon)

lemma all_digits_no_colon: "all_digits v \<Longrightarrow> CHR '':'' \<notin> set v"
  using colon_not_decimal by (auto simp: all_digits_def list_all_iff)

lemma py_int_all_digits: "py_int p = (if all_digits p then Inr (decimal_value p) else Inl (ValueError (''invalid literal for int() with base 10: '' @ [CHR 0x27] @ p @ [CHR 0x27])))"
  by (simp add: py_int_def all_digits_def)

lemma colon_branch:
  "(if \<not> list_all isdigit parts then Inl e1
    else (case int_all parts of
            Inl e \<Rightarrow> Inl e
          | Inr [minutes, seconds] \<Rightarrow> Inr (minutes * 60 + seconds)
          | Inr [hours, minutes, seconds] \<Rightarrow> Inr (hours * 3600 + minutes * 60 + seconds)
          | Inr _ \<Rightarrow> Inl e2)) = Inr n
   \<longleftrightarrow>
   (case parts of
        [m, s] \<Rightarrow>
          if all_digits m \<and> all_digits s then Some (decimal_value m * 60 + decimal_value s) else None
      | [h, m, s] \<Rightarrow>
          if all_digits h \<and> all_digits m \<and> all_digits s
          then Some (decimal_value h * 3600 + decimal_value m * 60 + decimal_value s) else None
      | _ \<Rightarrow> None) = Some n"
proof (cases parts)
  case Nil
  then show ?thesis by simp
next
  case (Cons a p1)
  note c1 = Cons
  show ?thesis
  proof (cases p1)
    case Nil
    with c1 show ?thesis by (simp add: py_int_all_digits)
  next
    case (Cons b p2)
    note c2 = Cons
    show ?thesis
    proof (cases p2)
      case Nil
      with c1 c2 show ?thesis by (auto simp: py_int_all_digits dest: all_digits_isdigit)
    next
      case (Cons c p3)
      note c3 = Cons
      show ?thesis
      proof (cases p3)
        case Nil
        with c1 c2 c3 show ?thesis by (auto simp: py_int_all_digits dest: all_digits_isdigit)
      next
        case (Cons d p4)
        with c1 c2 c3 show ?thesis
          by (auto simp: py_int_all_digits split: sum.splits list.splits)
      qed
    qed
  qed
qed

lemma parse_duration_refines:
  assumes ne: "strip v \<noteq> []"
  shows "parse_duration v = Inr n \<longleftrightarrow> spec_parse (strip v) n"
proof (cases "CHR '':'' \<in> set (strip v)")
  case True
  have i: "spec_integer_grammar (strip v) = None"
    using True all_digits_no_colon by (auto simp: spec_integer_grammar_def)
  have s: "\<not> spec_suffix_grammar (strip v) n"
    using True pattern_no_colon by (auto simp: spec_suffix_grammar_def)
  have "parse_duration v = Inr n \<longleftrightarrow> spec_colon_grammar (strip v) = Some n"
    unfolding parse_duration_def spec_colon_grammar_def Let_def
    using ne True by (simp only: if_False if_True colon_branch)
  then show ?thesis
    using i s by (auto simp: spec_parse_def split: option.splits)
next
  case False
  then have c: "spec_colon_grammar (strip v) = None"
    by (simp add: spec_colon_grammar_def split_on_no_sep)
  show ?thesis
  proof (cases "isdigit (strip v)")
    case True
    then have "\<not> spec_suffix_grammar (strip v) n"
      using isdigit_not_pattern by (auto simp: spec_suffix_grammar_def)
    moreover have "parse_duration v = py_int (strip v)"
      using ne False True by (simp add: parse_duration_def Let_def)
    ultimately show ?thesis
      using c by (auto simp: spec_parse_def spec_integer_grammar_def py_int_all_digits)
  next
    case nd: False
    then have i: "spec_integer_grammar (strip v) = None"
      using all_digits_isdigit by (auto simp: spec_integer_grammar_def)
    have "parse_duration v = Inr n \<longleftrightarrow> spec_suffix_grammar (strip v) n"
      using ne False nd
      by (auto simp: parse_duration_def Let_def spec_suffix_grammar_def pattern_iff[symmetric]
          split: option.splits)
    then show ?thesis using c i by (simp add: spec_parse_def)
  qed
qed

lemma parse_duration_empty: "strip v = [] \<Longrightarrow> parse_duration v = Inl (ValueError ''Empty duration'')"
  by (simp add: parse_duration_def)

lemma digit_char_0: "digit_char 0 = CHR ''0''"
  by code_simp

lemma of_char_digit_char: "d < 10 \<Longrightarrow> (of_char (digit_char d) :: nat) = 48 + d"
  by (simp add: digit_char_def)

lemma is_decimal_digit_char: "d < 10 \<Longrightarrow> is_decimal (digit_char d)"
  by (simp add: is_decimal_def of_char_digit_char)

lemma digit_value_digit_char: "d < 10 \<Longrightarrow> digit_value (digit_char d) = int d"
  by (simp add: digit_value_def of_char_digit_char)

lemma decimal_value_snoc: "decimal_value (ds @ [c]) = 10 * decimal_value ds + digit_value c"
  by (simp add: decimal_value_def)

lemma decimal_digits_decimal: "list_all is_decimal (decimal_digits n)"
proof (induction n rule: decimal_digits.induct)
  case (1 n)
  show ?case
  proof (cases "n < 10")
    case True
    then show ?thesis by (subst decimal_digits.simps) (simp add: is_decimal_digit_char)
  next
    case False
    with 1 show ?thesis by (subst decimal_digits.simps) (simp add: is_decimal_digit_char)
  qed
qed

lemma decimal_digits_nonempty: "decimal_digits n \<noteq> []"
  by (subst decimal_digits.simps) simp

lemma decimal_value_digits: "decimal_value (decimal_digits n) = int n"
proof (induction n rule: decimal_digits.induct)
  case (1 n)
  show ?case
  proof (cases "n < 10")
    case True
    then show ?thesis
      by (subst decimal_digits.simps) (simp add: decimal_value_def digit_value_digit_char)
  next
    case False
    with 1 have "decimal_value (decimal_digits (n div 10)) = int (n div 10)" by simp
    moreover have "10 * int (n div 10) + int (n mod 10) = int n"
      by presburger
    ultimately show ?thesis
      using False
      by (subst decimal_digits.simps) (simp add: decimal_value_snoc digit_value_digit_char)
  qed
qed

lemma decimal_value_zeros: "decimal_value (replicate k (CHR ''0'') @ ds) = decimal_value ds"
proof -
  have "foldl (\<lambda>a c. 10 * a + digit_value c) 0 (replicate k (CHR ''0'')) = 0"
    by (induction k) (simp_all add: digit_value_def)
  then show ?thesis by (simp add: decimal_value_def)
qed

lemma zero_is_decimal: "is_decimal (CHR ''0'')"
  by (simp add: is_decimal_def)

lemma fmt_02d_nonneg:
  assumes "0 \<le> n"
  shows "fmt_02d n \<noteq> []" "list_all is_decimal (fmt_02d n)" "decimal_value (fmt_02d n) = n"
  using assms decimal_digits_nonempty[of "nat n"] decimal_digits_decimal[of "nat n"]
  by (auto simp: fmt_02d_def Let_def decimal_value_zeros decimal_value_digits
      zero_is_decimal list_all_iff)

lemma fmt_02d_two:
  assumes "0 \<le> n" "n < 100"
  shows "fmt_02d n = [digit_char (nat (n div 10)), digit_char (nat (n mod 10))]"
proof (cases "n < 10")
  case True
  with assms have "nat n < 10" by simp
  then have "decimal_digits (nat n) = [digit_char (nat n)]"
    by (subst decimal_digits.simps) simp
  with assms True show ?thesis by (simp add: fmt_02d_def digit_char_0[symmetric])
next
  case False
  with assms have a: "\<not> nat n < 10" "nat n div 10 < 10" by auto
  have "decimal_digits (nat n) = decimal_digits (nat n div 10) @ [digit_char (nat n mod 10)]"
    using a(1) by (subst decimal_digits.simps) simp
  also have "decimal_digits (nat n div 10) = [digit_char (nat n div 10)]"
    using a(2) by (subst decimal_digits.simps) simp
  finally show ?thesis
    using assms by (simp add: fmt_02d_def nat_div_distrib nat_mod_distrib)
qed

lemmas parse_eval = parse_duration_def strip_def is_space_def isdigit_def is_digit_char_def
  is_decimal_def DURATION_PATTERN_match_def match_group_def group_int_def decimal_value_def
  digit_value_def py_int_def

lemma digit_value_nonneg: "is_decimal c \<Longrightarrow> 0 \<le> digit_value c"
  by (simp add: is_decimal_def digit_value_def Let_def)

lemma decimal_value_nonneg: "list_all is_decimal ds \<Longrightarrow> 0 \<le> decimal_value ds"
proof (induction ds rule: rev_induct)
  case Nil
  then show ?case by (simp add: decimal_value_def)
next
  case (snoc c ds)
  then show ?case
    using digit_value_nonneg[of c] by (simp add: decimal_value_snoc)
qed

lemma group_int_nonneg: "group_form lo up g cap \<Longrightarrow> 0 \<le> group_int cap"
  by (auto simp: group_form_def group_int_def decimal_value_nonneg)

lemma spec_suffix_nonneg: "spec_suffix_grammar v n \<Longrightarrow> 0 \<le> n"
  unfolding spec_suffix_grammar_def pattern_form_def
  by (auto dest!: group_int_nonneg)

lemma spec_colon_nonneg: "spec_colon_grammar v = Some n \<Longrightarrow> 0 \<le> n"
  unfolding spec_colon_grammar_def
  by (auto simp: all_digits_def decimal_value_nonneg split: list.splits if_splits)

lemma spec_integer_nonneg: "spec_integer_grammar v = Some n \<Longrightarrow> 0 \<le> n"
  unfolding spec_integer_grammar_def
  by (auto simp: all_digits_def decimal_value_nonneg split: if_splits)

lemma spec_parse_nonneg: "spec_parse v n \<Longrightarrow> 0 \<le> n"
  unfolding spec_parse_def
  by (auto dest: spec_colon_nonneg spec_integer_nonneg spec_suffix_nonneg split: option.splits)

lemma parse_duration_nonneg:
  assumes "parse_duration v = Inr n"
  shows "0 \<le> n"
proof (cases "strip v = []")
  case True
  with assms show ?thesis by (simp add: parse_duration_empty)
next
  case False
  with assms show ?thesis
    using parse_duration_refines spec_parse_nonneg by blast
qed

lemma int_all_error:
  "int_all ps = Inl e \<Longrightarrow>
     \<exists>p. e = ValueError (''invalid literal for int() with base 10: '' @ [CHR 0x27] @ p @ [CHR 0x27])"
proof (induction ps)
  case Nil
  then show ?case by simp
next
  case (Cons p ps)
  then show ?case
    by (auto simp: py_int_def split: if_splits sum.splits)
qed

lemma parse_colon_failure:
  assumes c: "CHR '':'' \<in> set (strip v)" and f: "parse_duration v = Inl e"
  shows "e \<noteq> ValueError (''Invalid duration: '' @ strip v)"
proof -
  let ?parts = "map strip (split_on (CHR '':'') (strip v))"
  from c have ne: "strip v \<noteq> []" by auto
  show ?thesis
  proof (cases "list_all isdigit ?parts")
    case False
    with c ne f have "e = ValueError (''Invalid time format: '' @ strip v)"
      by (simp add: parse_duration_def Let_def)
    then show ?thesis by simp
  next
    case True
    show ?thesis
    proof (cases "int_all ?parts")
      case (Inl e')
      with c ne f True have "e = e'" by (simp add: parse_duration_def Let_def)
      with Inl int_all_error show ?thesis by fastforce
    next
      case (Inr ns)
      with c ne f True have "e = ValueError (''Invalid time format: '' @ strip v)"
        by (auto simp: parse_duration_def Let_def split: list.splits)
      then show ?thesis by simp
    qed
  qed
qed

lemma parse_suffix_failure:
  assumes "strip v \<noteq> []" "CHR '':'' \<notin> set (strip v)" "\<not> isdigit (strip v)"
    "\<And>n. \<not> spec_suffix_grammar (strip v) n"
  shows "parse_duration v = Inl (ValueError (''Invalid duration: '' @ strip v))"
proof (cases "DURATION_PATTERN_match (strip v)")
  case None
  with assms show ?thesis by (simp add: parse_duration_def Let_def)
next
  case (Some t)
  obtain h m s where "t = (h, m, s)" by (cases t)
  with Some have "pattern_form (strip v) h m s" by (simp add: pattern_iff)
  with assms(4) show ?thesis unfolding spec_suffix_grammar_def by blast
qed

section \<open>Claims about parsing and validation\<close>

text \<open>
  C4. \<open>parse_duration\<close> reads \<open>90\<close> as 90, \<open>2m30s\<close> as 150, \<open>00:10\<close> as 10 and \<open>1:02:03\<close> as
  3723; the empty string fails with the error of an empty input and \<open>abc\<close> with the error
  of an invalid format. The three grammars are tried in order: an input that is empty after
  stripping fails as empty; otherwise the parser returns \<open>n\<close> exactly when the first of the
  colon grammar, the integer grammar and the suffix grammar that accepts the stripped input
  gives \<open>n\<close>; an input with a colon never fails with the error of the suffix grammar; and an
  input without a colon that is no integer and not of the suffix form fails with that error.
\<close>

theorem parse_duration_grammars_in_order:
  "parse_duration ''90'' = Inr 90 \<and> parse_duration ''2m30s'' = Inr 150 \<and>
   parse_duration ''00:10'' = Inr 10 \<and> parse_duration ''1:02:03'' = Inr 3723 \<and>
   parse_duration [] = Inl (ValueError ''Empty duration'') \<and>
   parse_duration ''abc'' = Inl (ValueError ''Invalid duration: abc'') \<and>
   (\<forall>v. strip v = [] \<longrightarrow> parse_duration v = Inl (ValueError ''Empty duration'')) \<and>
   (\<forall>v n. strip v \<noteq> [] \<longrightarrow> (parse_duration v = Inr n \<longleftrightarrow> spec_parse (strip v) n)) \<and>
   (\<forall>v e. CHR '':'' \<in> set (strip v) \<and> parse_duration v = Inl e \<longrightarrow>
       e \<noteq> ValueError (''Invalid duration: '' @ strip v)) \<and>
   (\<forall>v. strip v \<noteq> [] \<and> CHR '':'' \<notin> set (strip v) \<and> \<not> isdigit (strip v) \<and>
        (\<forall>n. \<not> spec_suffix_grammar (strip v) n) \<longrightarrow>
       parse_duration v = Inl (ValueError (''Invalid duration: '' @ strip v)))"
proof -
  have e1: "parse_duration ''90'' = Inr 90" by (simp add: parse_eval)
  have e2: "parse_duration ''2m30s'' = Inr 150" by (simp add: parse_eval)
  have e3: "parse_duration ''00:10'' = Inr 10" by (simp add: parse_eval)
  have e4: "parse_duration ''1:02:03'' = Inr 3723" by (simp add: parse_eval)
  have e5: "parse_duration [] = Inl (ValueError ''Empty duration'')" by (simp add: parse_eval)
  have e6: "parse_duration ''abc'' = Inl (ValueError ''Invalid duration: abc'')"
    by (simp add: parse_eval)
  show ?thesis
    using e1 e2 e3 e4 e5 e6 parse_duration_empty parse_duration_refines parse_colon_failure
      parse_suffix_failure
    by blast
qed

theorem parse_duration_grammars_in_order_witness:
  "strip '' '' = [] \<and> parse_duration '' '' = Inl (ValueError ''Empty duration'') \<and>
   strip ''1h'' \<noteq> [] \<and> parse_duration ''1h'' = Inr 3600 \<and> spec_parse (strip ''1h'') 3600 \<and>
   CHR '':'' \<in> set (strip ''1:x'') \<and>
   parse_duration ''1:x'' = Inl (ValueError ''Invalid time format: 1:x'') \<and>
   ValueError ''Invalid time format: 1:x'' \<noteq> ValueError (''Invalid duration: '' @ strip ''1:x'') \<and>
   strip ''abc'' \<noteq> [] \<and> CHR '':'' \<notin> set (strip ''abc'') \<and> \<not> isdigit (strip ''abc'') \<and>
   (\<forall>n. \<not> spec_suffix_grammar (strip ''abc'') n) \<and>
   parse_duration ''abc'' = Inl (ValueError (''Invalid duration: '' @ strip ''abc''))"
proof -
  note T = parse_duration_grammars_in_order
  note T7 = T[THEN conjunct2, THEN conjunct2, THEN conjunct2, THEN conjunct2, THEN conjunct2,
      THEN conjunct2, THEN conjunct1, rule_format]
  note T8 = T[THEN conjunct2, THEN conjunct2, THEN conjunct2, THEN conjunct2, THEN conjunct2,
      THEN conjunct2, THEN conjunct2, THEN conjunct1, rule_format]
  note T9 = T[THEN conjunct2, THEN conjunct2, THEN conjunct2, THEN conjunct2, THEN conjunct2,
      THEN conjunct2, THEN conjunct2, THEN conjunct2, THEN conjunct1, rule_format]
  note T10 = T[THEN conjunct2, THEN conjunct2, THEN conjunct2, THEN conjunct2, THEN conjunct2,
      THEN conjunct2, THEN conjunct2, THEN conjunct2, THEN conjunct2, rule_format]
  have s1: "strip '' '' = []" by (simp add: strip_def is_space_def)
  have s2: "strip ''1h'' = ''1h''" by (simp add: strip_def is_space_def)
  have s3: "strip ''1:x'' = ''1:x''" by (simp add: strip_def is_space_def)
  have s4: "strip ''abc'' = ''abc''" by (simp add: strip_def is_space_def)
  have a: "parse_duration '' '' = Inl (ValueError ''Empty duration'')"
    by (rule T7[OF s1])
  have ne2: "strip ''1h'' \<noteq> []" by (simp add: s2)
  have p: "parse_duration ''1h'' = Inr 3600" by (simp add: parse_eval)
  have b: "spec_parse (strip ''1h'') 3600"
    using T8[OF ne2, of 3600] p by simp
  have c3: "CHR '':'' \<in> set (strip ''1:x'')" by (simp add: s3)
  have f: "parse_duration ''1:x'' = Inl (ValueError ''Invalid time format: 1:x'')"
    by (simp add: parse_eval)
  have c: "ValueError ''Invalid time format: 1:x'' \<noteq> ValueError (''Invalid duration: '' @ strip ''1:x'')"
    by (rule T9) (use c3 f in blast)
  have m: "DURATION_PATTERN_match ''abc'' = None"
    by (simp add: DURATION_PATTERN_match_def match_group_def is_space_def is_decimal_def)
  have d: "\<forall>n. \<not> spec_suffix_grammar (strip ''abc'') n"
    using m by (simp add: s4 spec_suffix_grammar_def pattern_iff[symmetric])
  have nd: "\<not> isdigit (strip ''abc'')"
    by (simp add: s4 isdigit_def is_digit_char_def is_decimal_def)
  have nc: "CHR '':'' \<notin> set (strip ''abc'')" by (simp add: s4)
  have ne: "strip ''abc'' \<noteq> []" by (simp add: s4)
  have e: "parse_duration ''abc'' = Inl (ValueError (''Invalid duration: '' @ strip ''abc''))"
    by (rule T10) (use ne nc nd d in blast)
  from s1 a ne2 p b c3 f c ne nc nd d e show ?thesis by blast
qed

text \<open>
  C9. In the colon grammar the components have no clock bounds and each is stripped of
  whitespace before the digit check: for components \<open>m\<close> and \<open>s\<close> of decimal digits, with
  any whitespace around each, the parser returns sixty times the value of \<open>m\<close> plus the value
  of \<open>s\<close>; so for all natural numbers \<open>a\<close> and \<open>b\<close>, written in decimal, it returns
  \<open>60 * a + b\<close>, also when \<open>a\<close> or \<open>b\<close> is 60 or more. \<open>0:90\<close> gives 90, \<open>99:99\<close> gives 6039, and
  \<open>1 : 02\<close> with spaces around the components parses, to 62.
\<close>

theorem colon_components_unbounded_and_stripped:
  "(\<forall>m s w1 w2 w3 w4.
      all_digits m \<and> all_digits s \<and>
      list_all is_space w1 \<and> list_all is_space w2 \<and> list_all is_space w3 \<and> list_all is_space w4 \<longrightarrow>
      parse_duration (w1 @ m @ w2 @ '':'' @ w3 @ s @ w4) = Inr (60 * decimal_value m + decimal_value s)) \<and>
   (\<forall>a b. parse_duration (decimal_digits a @ '':'' @ decimal_digits b) = Inr (60 * int a + int b)) \<and>
   parse_duration ''0:90'' = Inr 90 \<and> parse_duration ''99:99'' = Inr 6039 \<and>
   parse_duration '' 1 : 02 '' = Inr 62"
proof -
  have g: "\<And>m s w1 w2 w3 w4.
      all_digits m \<and> all_digits s \<and>
      list_all is_space w1 \<and> list_all is_space w2 \<and> list_all is_space w3 \<and> list_all is_space w4 \<Longrightarrow>
      parse_duration (w1 @ m @ w2 @ '':'' @ w3 @ s @ w4) = Inr (60 * decimal_value m + decimal_value s)"
    using parse_colon2 by (simp add: all_digits_def)
  have n: "\<And>a b. parse_duration (decimal_digits a @ '':'' @ decimal_digits b) = Inr (60 * int a + int b)"
  proof -
    fix a b
    show "parse_duration (decimal_digits a @ '':'' @ decimal_digits b) = Inr (60 * int a + int b)"
      using parse_colon2[of "decimal_digits a" "decimal_digits b" "[]" "[]" "[]" "[]"]
      by (simp add: decimal_digits_nonempty decimal_digits_decimal decimal_value_digits)
  qed
  have e1: "parse_duration ''0:90'' = Inr 90" by (simp add: parse_eval)
  have e2: "parse_duration ''99:99'' = Inr 6039" by (simp add: parse_eval)
  have e3: "parse_duration '' 1 : 02 '' = Inr 62" by (simp add: parse_eval)
  from g n e1 e2 e3 show ?thesis by blast
qed

theorem colon_components_unbounded_and_stripped_witness:
  "all_digits ''1'' \<and> all_digits ''02'' \<and> list_all is_space '' '' \<and>
   parse_duration ('' '' @ ''1'' @ '' '' @ '':'' @ '' '' @ ''02'' @ '' '') = Inr 62 \<and>
   60 * decimal_value ''1'' + decimal_value ''02'' = 62"
proof -
  have d: "all_digits ''1''" "all_digits ''02''" by (simp_all add: all_digits_def is_decimal_def)
  have w: "list_all is_space '' ''" by (simp add: is_space_def)
  have v: "60 * decimal_value ''1'' + decimal_value ''02'' = 62"
    by (simp add: decimal_value_def digit_value_def)
  have "parse_duration ('' '' @ ''1'' @ '' '' @ '':'' @ '' '' @ ''02'' @ '' '')
          = Inr (60 * decimal_value ''1'' + decimal_value ''02'')"
    by (rule colon_components_unbounded_and_stripped[THEN conjunct1, rule_format])
       (use d w in blast)
  with d w v show ?thesis by simp
qed

lemma main_nonpositive:
  assumes "parse_duration v = Inr n" "n \<le> 0"
  shows "main v l tick t0 rs = BadParameter ''Duration must be greater than 0''"
  using assms by (simp add: main_def validate_duration_def)

text \<open>
  C6. The parser never rejects a string because it denotes zero seconds: \<open>0\<close> and \<open>0s\<close>
  parse to 0, every string that the grammars read as 0 parses to 0, and no result of the
  parser is negative. The rejection is in the validation step alone: \<open>validate_duration\<close>
  fails for every value that is 0 or less, 0 and -5 among them, with the message
  \<open>Duration must be greater than 0\<close>, and passes every value above 0; in \<open>main\<close> a parsed
  value that is 0 or less ends with exactly this message.
\<close>

theorem zero_rejected_by_validation_only:
  "parse_duration ''0'' = Inr 0 \<and> parse_duration ''0s'' = Inr 0 \<and>
   (\<forall>v. strip v \<noteq> [] \<and> spec_parse (strip v) 0 \<longrightarrow> parse_duration v = Inr 0) \<and>
   (\<forall>v n. parse_duration v = Inr n \<longrightarrow> 0 \<le> n) \<and>
   (\<forall>n. n \<le> 0 \<longrightarrow> validate_duration n = Inl (ValueError ''Duration must be greater than 0'')) \<and>
   validate_duration 0 = Inl (ValueError ''Duration must be greater than 0'') \<and>
   validate_duration (- 5) = Inl (ValueError ''Duration must be greater than 0'') \<and>
   (\<forall>n. 0 < n \<longrightarrow> validate_duration n = Inr ()) \<and>
   (\<forall>v n label tick t0 readings. parse_duration v = Inr n \<and> n \<le> 0 \<longrightarrow>
      main v label tick t0 readings = BadParameter ''Duration must be greater than 0'')"
proof -
  have e1: "parse_duration ''0'' = Inr 0" by (simp add: parse_eval)
  have e2: "parse_duration ''0s'' = Inr 0" by (simp add: parse_eval)
  have z: "\<And>v. strip v \<noteq> [] \<and> spec_parse (strip v) 0 \<Longrightarrow> parse_duration v = Inr 0"
    using parse_duration_refines by blast
  have v1: "\<And>n. n \<le> 0 \<Longrightarrow> validate_duration n = Inl (ValueError ''Duration must be greater than 0'')"
    by (simp add: validate_duration_def)
  have v2: "\<And>n. 0 < n \<Longrightarrow> validate_duration n = Inr ()"
    by (simp add: validate_duration_def)
  have v3: "validate_duration 0 = Inl (ValueError ''Duration must be greater than 0'')"
    "validate_duration (- 5) = Inl (ValueError ''Duration must be greater than 0'')"
    by (simp_all add: validate_duration_def)
  from e1 e2 z parse_duration_nonneg v1 v2 v3 main_nonpositive show ?thesis by blast
qed

theorem zero_rejected_by_validation_only_witness:
  "strip ''0:00'' \<noteq> [] \<and> spec_parse (strip ''0:00'') 0 \<and> parse_duration ''0:00'' = Inr 0 \<and>
   parse_duration ''7'' = Inr 7 \<and> (0::int) \<le> 7 \<and>
   (- 3 :: int) \<le> 0 \<and> validate_duration (- 3) = Inl (ValueError ''Duration must be greater than 0'') \<and>
   (0::int) < 7 \<and> validate_duration 7 = Inr () \<and>
   parse_duration ''0h'' = Inr 0 \<and>
   main ''0h'' ''Countdown'' 0.1 0 [] = BadParameter ''Duration must be greater than 0''"
proof -
  note T = zero_rejected_by_validation_only
  note T3 = T[THEN conjunct2, THEN conjunct2, THEN conjunct1, rule_format]
  note T4 = T[THEN conjunct2, THEN conjunct2, THEN conjunct2, THEN conjunct1, rule_format]
  note T5 = T[THEN conjunct2, THEN conjunct2, THEN conjunct2, THEN conjunct2, THEN conjunct1,
      rule_format]
  note T8 = T[THEN conjunct2, THEN conjunct2, THEN conjunct2, THEN conjunct2, THEN conjunct2,
      THEN conjunct2, THEN conjunct2, THEN conjunct1, rule_format]
  note T9 = T[THEN conjunct2, THEN conjunct2, THEN conjunct2, THEN conjunct2, THEN conjunct2,
      THEN conjunct2, THEN conjunct2, THEN conjunct2, rule_format]
  have s: "strip ''0:00'' = ''0:00''" by (simp add: strip_def is_space_def)
  have ne: "strip ''0:00'' \<noteq> []" by (simp add: s)
  have sp: "spec_parse (strip ''0:00'') 0"
    by (simp add: s spec_parse_def spec_colon_grammar_def all_digits_def strip_def is_space_def
        is_decimal_def decimal_value_def digit_value_def)
  have a: "parse_duration ''0:00'' = Inr 0"
    by (rule T3) (use ne sp in blast)
  have p7: "parse_duration ''7'' = Inr 7" by (simp add: parse_eval)
  have b: "(0::int) \<le> 7" by (rule T4[OF p7])
  have c: "validate_duration (- 3) = Inl (ValueError ''Duration must be greater than 0'')"
    by (rule T5) simp
  have d: "validate_duration 7 = Inr ()" by (rule T8) simp
  have p0: "parse_duration ''0h'' = Inr 0" by (simp add: parse_eval)
  have e: "main ''0h'' ''Countdown'' 0.1 0 [] = BadParameter ''Duration must be greater than 0''"
    using T9[of "''0h''" 0] p0 by simp
  from ne sp a p7 b c d p0 e show ?thesis by simp
qed

section \<open>Claims about format_time\<close>

lemma parse_colon3:
  assumes h: "h \<noteq> []" "list_all is_decimal h" and m: "m \<noteq> []" "list_all is_decimal m"
    and s: "s \<noteq> []" "list_all is_decimal s"
  shows "parse_duration (h @ '':'' @ m @ '':'' @ s)
           = Inr (decimal_value h * 3600 + decimal_value m * 60 + decimal_value s)"
proof -
  let ?v = "h @ '':'' @ m @ '':'' @ s"
  have hd: "\<not> is_space (hd ?v)" using h by (cases h) (auto dest: decimal_not_space)
  have la: "\<not> is_space (last ?v)" using s by (cases s rule: rev_cases) (auto dest: decimal_not_space)
  have st: "strip ?v = ?v"
    using strip_core[of "[]" "[]" ?v] hd la by simp
  have nc: "CHR '':'' \<notin> set h" "CHR '':'' \<notin> set m" "CHR '':'' \<notin> set s"
    using h m s colon_not_decimal by (auto simp: list_all_iff)
  have sp: "split_on (CHR '':'') ?v = [h, m, s]"
    using split_on_append[OF nc(1), of "m @ '':'' @ s"] split_on_append[OF nc(2), of s]
      split_on_no_sep[OF nc(3)] by simp
  have ss: "strip h = h" "strip m = m" "strip s = s"
    using strip_decimal[of "[]" "[]"] h m s by simp_all
  show ?thesis
    unfolding parse_duration_def st Let_def sp
    using h m s by (simp add: ss isdigit_decimal py_int_decimal)
qed

lemma two_digits_fmt: "0 \<le> k \<Longrightarrow> k < 100 \<Longrightarrow> fmt_02d k = two_digits k"
  by (simp add: fmt_02d_two two_digits_def)

lemma fmt_02d_length: "2 \<le> length (fmt_02d n)"
  using decimal_digits_nonempty[of "nat n"] decimal_digits_nonempty[of "nat (- n)"]
  by (cases "decimal_digits (nat n)"; cases "decimal_digits (nat (- n))")
     (auto simp: fmt_02d_def Let_def)

lemma minus_not_decimal: "\<not> is_decimal (CHR ''-'')"
  by (simp add: is_decimal_def)

lemma decimal_no_minus: "list_all is_decimal ds \<Longrightarrow> CHR ''-'' \<notin> set ds"
  using minus_not_decimal by (auto simp: list_all_iff)

lemma rounded_cases:
  fixes x :: real
  defines "n \<equiv> max 0 (py_trunc (x + 1 / 2))"
  shows "0 \<le> n" "0 \<le> x \<Longrightarrow> n = \<lfloor>x + 1 / 2\<rfloor>" "0 \<le> x \<Longrightarrow> \<bar>real_of_int n - x\<bar> \<le> 1 / 2"
    "x < 0 \<Longrightarrow> n = 0"
proof -
  show "0 \<le> n" by (simp add: n_def)
  show r: "n = \<lfloor>x + 1 / 2\<rfloor>" if "0 \<le> x"
  proof -
    from that have "0 \<le> \<lfloor>x + 1 / 2\<rfloor>" by simp
    with that show ?thesis by (simp add: n_def py_trunc_def)
  qed
  show "\<bar>real_of_int n - x\<bar> \<le> 1 / 2" if "0 \<le> x"
    using r[OF that] by linarith
  show "n = 0" if "x < 0"
  proof (cases "0 \<le> x + 1 / 2")
    case True
    with that have "\<lfloor>x + 1 / 2\<rfloor> = 0" by linarith
    with True show ?thesis by (simp add: n_def py_trunc_def)
  next
    case False
    then have "\<lceil>x + 1 / 2\<rceil> \<le> 0" by linarith
    with False show ?thesis by (simp add: n_def py_trunc_def)
  qed
qed

lemma format_time_unfold:
  "format_time x =
     (let n = max 0 (py_trunc (x + 1 / 2)) in
      if 0 < n div 3600
      then fmt_02d (n div 3600) @ '':'' @ fmt_02d (n mod 3600 div 60) @ '':'' @ fmt_02d (n mod 60)
      else fmt_02d (n mod 3600 div 60) @ '':'' @ fmt_02d (n mod 60))"
  by (simp add: format_time_def Let_def)

lemma clock_fields:
  fixes n :: int
  assumes "0 \<le> n"
  shows "n mod 3600 div 60 = n div 60 mod 60" "0 \<le> n div 60 mod 60" "n div 60 mod 60 < 60"
    "0 \<le> n mod 60" "n mod 60 < 60" "0 \<le> n div 3600"
    "n div 3600 * 3600 + n div 60 mod 60 * 60 + n mod 60 = n"
proof -
  have d: "n div 3600 = n div 60 div 60"
    using zdiv_zmult2_eq[of 60 n 60] by simp
  have m: "n mod 3600 = 60 * (n div 60 mod 60) + n mod 60"
    using zmod_zmult2_eq[of 60 n 60] by simp
  show r: "0 \<le> n mod 60" "n mod 60 < 60" by simp_all
  show "0 \<le> n div 60 mod 60" "n div 60 mod 60 < 60" by simp_all
  show "n mod 3600 div 60 = n div 60 mod 60"
    unfolding m using r by simp
  show "0 \<le> n div 3600" using assms by (simp add: pos_imp_zdiv_nonneg_iff)
  have "n = 60 * (n div 60) + n mod 60" by simp
  moreover have "n div 60 = 60 * (n div 60 div 60) + n div 60 mod 60" by simp
  ultimately show "n div 3600 * 3600 + n div 60 mod 60 * 60 + n mod 60 = n"
    unfolding d by linarith
qed

lemma two_digits_decimal:
  assumes "0 \<le> k" "k < 100"
  shows "two_digits k \<noteq> []" "list_all is_decimal (two_digits k)" "decimal_value (two_digits k) = k"
  using fmt_02d_nonneg[OF assms(1)] two_digits_fmt[OF assms] by simp_all

lemma format_time_shape:
  fixes x :: real
  defines "n \<equiv> max 0 (py_trunc (x + 1 / 2))"
  shows "0 < n div 3600 \<Longrightarrow>
           format_time x = fmt_02d (n div 3600) @ '':'' @ two_digits (n div 60 mod 60) @ '':'' @ two_digits (n mod 60)"
    and "n div 3600 = 0 \<Longrightarrow> format_time x = two_digits (n div 60 mod 60) @ '':'' @ two_digits (n mod 60)"
    and "parse_duration (format_time x) = Inr n"
    and "CHR ''-'' \<notin> set (format_time x)"
proof -
  have n0: "0 \<le> n" by (simp add: n_def)
  note cf = clock_fields[OF n0]
  have m: "fmt_02d (n mod 3600 div 60) = two_digits (n div 60 mod 60)"
    unfolding cf(1) by (rule two_digits_fmt[OF cf(2)]) (use cf(3) in linarith)
  have s: "fmt_02d (n mod 60) = two_digits (n mod 60)"
    by (rule two_digits_fmt[OF cf(4)]) (use cf(5) in linarith)
  have f: "format_time x =
     (if 0 < n div 3600
      then fmt_02d (n div 3600) @ '':'' @ two_digits (n div 60 mod 60) @ '':'' @ two_digits (n mod 60)
      else two_digits (n div 60 mod 60) @ '':'' @ two_digits (n mod 60))"
    unfolding format_time_unfold n_def[symmetric] Let_def m s ..
  show a: "format_time x = fmt_02d (n div 3600) @ '':'' @ two_digits (n div 60 mod 60) @ '':'' @ two_digits (n mod 60)"
    if "0 < n div 3600" using f that by simp
  show b: "format_time x = two_digits (n div 60 mod 60) @ '':'' @ two_digits (n mod 60)"
    if "n div 3600 = 0" using f that by simp
  have lt: "n div 60 mod 60 < 100" "n mod 60 < 100" using cf(3,5) by linarith+
  note dm = two_digits_decimal[OF cf(2) lt(1)]
  note ds = two_digits_decimal[OF cf(4) lt(2)]
  note dh = fmt_02d_nonneg[OF cf(6)]
  show "parse_duration (format_time x) = Inr n"
  proof (cases "0 < n div 3600")
    case True
    show ?thesis
      unfolding a[OF True]
      unfolding parse_colon3[OF dh(1,2) dm(1,2) ds(1,2)] dh(3) dm(3) ds(3) cf(7) ..
  next
    case False
    with cf(6) have z: "n div 3600 = 0" by simp
    have "parse_duration (two_digits (n div 60 mod 60) @ '':'' @ two_digits (n mod 60))
            = Inr (60 * decimal_value (two_digits (n div 60 mod 60)) + decimal_value (two_digits (n mod 60)))"
      using parse_colon2[OF dm(1,2) ds(1,2), of "[]" "[]" "[]" "[]"] by simp
    moreover have "60 * (n div 60 mod 60) + n mod 60 = n"
      using cf(7) z by simp
    ultimately show ?thesis
      unfolding b[OF z] dm(3) ds(3) by simp
  qed
  show "CHR ''-'' \<notin> set (format_time x)"
    using f dh(2) dm(2) ds(2) by (auto dest: decimal_no_minus)
qed

text \<open>
  C5. \<open>format_time\<close> adds one half to its argument, truncates toward zero and takes the
  result or 0, whichever is larger; for an argument that is not negative this \<open>n\<close> is the
  nearest whole second, and for a negative argument it is 0. With hours \<open>n div 3600\<close> above
  0 it writes hours, minutes and seconds, each field of at least two digits, separated by
  colons, and otherwise minutes and seconds; the string read back by \<open>parse_duration\<close>
  is \<open>n\<close>, and it has no minus sign. In particular 0 gives \<open>00:00\<close>, 65 gives \<open>01:05\<close>, 3661
  gives \<open>01:01:01\<close> and -5 gives \<open>00:00\<close>.
\<close>

theorem format_time_rounds_and_renders:
  "format_time 0 = ''00:00'' \<and> format_time 65 = ''01:05'' \<and>
   format_time 3661 = ''01:01:01'' \<and> format_time (- 5) = ''00:00'' \<and>
   (\<forall>x. let n = max 0 (py_trunc (x + 1 / 2));
            h = n div 3600; m = n div 60 mod 60; s = n mod 60
        in (0 \<le> x \<longrightarrow> n = \<lfloor>x + 1 / 2\<rfloor> \<and> \<bar>real_of_int n - x\<bar> \<le> 1 / 2) \<and>
           (x < 0 \<longrightarrow> n = 0) \<and>
           (0 < h \<longrightarrow> format_time x = fmt_02d h @ '':'' @ two_digits m @ '':'' @ two_digits s) \<and>
           (h = 0 \<longrightarrow> format_time x = two_digits m @ '':'' @ two_digits s) \<and>
           2 \<le> length (fmt_02d h) \<and> list_all is_decimal (fmt_02d h) \<and> decimal_value (fmt_02d h) = h \<and>
           parse_duration (format_time x) = Inr n \<and>
           CHR ''-'' \<notin> set (format_time x))"
proof -
  have e1: "format_time 0 = ''00:00''" by code_simp
  have e2: "format_time 65 = ''01:05''" by code_simp
  have e3: "format_time 3661 = ''01:01:01''" by code_simp
  have e4: "format_time (- 5) = ''00:00''" by code_simp
  have g: "let n = max 0 (py_trunc (x + 1 / 2));
            h = n div 3600; m = n div 60 mod 60; s = n mod 60
        in (0 \<le> x \<longrightarrow> n = \<lfloor>x + 1 / 2\<rfloor> \<and> \<bar>real_of_int n - x\<bar> \<le> 1 / 2) \<and>
           (x < 0 \<longrightarrow> n = 0) \<and>
           (0 < h \<longrightarrow> format_time x = fmt_02d h @ '':'' @ two_digits m @ '':'' @ two_digits s) \<and>
           (h = 0 \<longrightarrow> format_time x = two_digits m @ '':'' @ two_digits s) \<and>
           2 \<le> length (fmt_02d h) \<and> list_all is_decimal (fmt_02d h) \<and> decimal_value (fmt_02d h) = h \<and>
           parse_duration (format_time x) = Inr n \<and>
           CHR ''-'' \<notin> set (format_time x)" for x
  proof -
    define n where "n = max 0 (py_trunc (x + 1 / 2))"
    have h0: "0 \<le> n div 3600"
      unfolding n_def using clock_fields(6)[OF rounded_cases(1)] .
    have r1: "0 \<le> x \<longrightarrow> n = \<lfloor>x + 1 / 2\<rfloor> \<and> \<bar>real_of_int n - x\<bar> \<le> 1 / 2"
      unfolding n_def using rounded_cases(2,3)[of x] by simp
    have r2: "x < 0 \<longrightarrow> n = 0"
      unfolding n_def using rounded_cases(4)[of x] by simp
    have f1: "0 < n div 3600 \<longrightarrow> format_time x =
        fmt_02d (n div 3600) @ '':'' @ two_digits (n div 60 mod 60) @ '':'' @ two_digits (n mod 60)"
      unfolding n_def using format_time_shape(1)[of x] by simp
    have f2: "n div 3600 = 0 \<longrightarrow> format_time x =
        two_digits (n div 60 mod 60) @ '':'' @ two_digits (n mod 60)"
      unfolding n_def using format_time_shape(2)[of x] by simp
    have f3: "parse_duration (format_time x) = Inr n"
      unfolding n_def by (rule format_time_shape(3))
    have f4: "CHR ''-'' \<notin> set (format_time x)"
      by (rule format_time_shape(4))
    note f5 = fmt_02d_length[of "n div 3600"] fmt_02d_nonneg(2,3)[OF h0]
    show ?thesis
      unfolding Let_def n_def[symmetric]
      by (intro conjI r1 r2 f1 f2 f3 f4 f5)
  qed
  show ?thesis
    by (intro conjI allI e1 e2 e3 e4 g)
qed

theorem format_time_rounds_and_renders_witness:
  "(0::real) \<le> 3661.4 \<and> max 0 (py_trunc (3661.4 + 1 / 2)) = 3661 \<and>
   \<bar>real_of_int 3661 - 3661.4\<bar> \<le> 1 / 2 \<and> (0::int) < 3661 div 3600 \<and>
   format_time 3661.4 = fmt_02d 1 @ '':'' @ two_digits 1 @ '':'' @ two_digits 1 \<and>
   parse_duration (format_time 3661.4) = Inr 3661 \<and>
   (- 0.3 :: real) < 0 \<and> max 0 (py_trunc (- 0.3 + 1 / 2)) = 0 \<and> (0::int) div 3600 = 0 \<and>
   format_time (- 0.3) = two_digits 0 @ '':'' @ two_digits 0"
proof -
  note T = format_time_rounds_and_renders[THEN conjunct2, THEN conjunct2, THEN conjunct2,
      THEN conjunct2, rule_format]
  have n1: "max 0 (py_trunc (3661.4 + 1 / 2)) = 3661" by (simp add: py_trunc_def)
  have n2: "max 0 (py_trunc (- 0.3 + 1 / 2)) = 0" by (simp add: py_trunc_def)
  note A = T[of "3661.4", unfolded Let_def n1]
  note B = T[of "- 0.3", unfolded Let_def n2]
  have a: "format_time 3661.4 = fmt_02d 1 @ '':'' @ two_digits 1 @ '':'' @ two_digits 1"
    using A[THEN conjunct2, THEN conjunct2, THEN conjunct1] by simp
  have a': "parse_duration (format_time 3661.4) = Inr 3661"
    by (rule A[THEN conjunct2, THEN conjunct2, THEN conjunct2, THEN conjunct2, THEN conjunct2,
        THEN conjunct2, THEN conjunct2, THEN conjunct1])
  have b: "format_time (- 0.3) = two_digits 0 @ '':'' @ two_digits 0"
    using B[THEN conjunct2, THEN conjunct2, THEN conjunct2, THEN conjunct1] by simp
  have c1: "(0::real) \<le> 3661.4" by simp
  have c3: "\<bar>real_of_int 3661 - 3661.4\<bar> \<le> 1 / 2" by simp
  have c4: "(0::int) < 3661 div 3600" by simp
  have c7: "(- 0.3 :: real) < 0" by simp
  have c9: "(0::int) div 3600 = 0" by simp
  show ?thesis
    by (intro conjI c1 n1 c3 c4 a a' b c7 n2 c9)
qed

section \<open>Lemmas about the loop\<close>

lemma lower_eval:
  "lower ''q'' = ''q''" "lower ''Q'' = ''q''" "lower ''p'' = ''p''" "lower ''P'' = ''p''"
  "lower '' '' = '' ''" "lower ''s'' = ''s''" "lower ''S'' = ''s''"
  by code_simp+

lemma handle_key_quit: "k = ''q'' \<or> k = ''Q'' \<Longrightarrow> handle_key (Some k) now st = None"
  by (auto simp: handle_key_def lower_eval)

lemma handle_key_toggle:
  assumes "k = ''p'' \<or> k = ''P'' \<or> k = '' ''"
  shows "handle_key (Some k) now st =
           Some (if paused st then st\<lparr>start := now, paused := False\<rparr>
                 else st\<lparr>elapsed_before_pause := elapsed_before_pause st + (now - start st),
                         paused := True\<rparr>)"
  using assms by (auto simp: handle_key_def lower_eval)

lemma handle_key_start:
  assumes "k = ''s'' \<or> k = ''S''"
  shows "handle_key (Some k) now st =
           Some (if paused st then st\<lparr>start := now, paused := False\<rparr> else st)"
  using assms by (auto simp: handle_key_def lower_eval)

lemma handle_key_other:
  assumes "lower k \<noteq> ''q''" "lower k \<noteq> ''p''" "lower k \<noteq> '' ''" "lower k \<noteq> ''s''"
  shows "handle_key (Some k) now st = Some st"
  using assms by (simp add: handle_key_def Let_def)

lemma handle_key_none: "handle_key None now st = Some st"
  by (simp add: handle_key_def)

text \<open>The states a key can lead to.\<close>

lemma handle_key_cases:
  assumes "handle_key key now st = Some st'"
  shows "st' = st \<or>
         (paused st \<and> st' = st\<lparr>start := now, paused := False\<rparr>) \<or>
         (\<not> paused st \<and>
            st' = st\<lparr>elapsed_before_pause := elapsed_before_pause st + (now - start st), paused := True\<rparr>)"
  using assms
  by (auto simp: handle_key_def Let_def split: option.splits if_splits)

lemma elapsed_step:
  assumes "handle_key key now' st = Some st'"
  shows "elapsed_at st' now' = elapsed_at st now + (if paused st then 0 else now' - now)"
  using handle_key_cases[OF assms] by (auto simp: elapsed_at_def)

lemma run_loop_Cons:
  "run_loop d l st ((now, key) # rs) =
     (case handle_key key now st of
        None \<Rightarrow> ([], Quit)
      | Some st' \<Rightarrow>
          if real_of_int d - elapsed_at st' now \<le> 0 then ([iteration_of d l st' now], Expired)
          else (iteration_of d l st' now # fst (run_loop d l st' rs), snd (run_loop d l st' rs)))"
  by (simp add: iteration_of_def Let_def split: option.splits prod.splits)

declare run_loop.simps(2) [simp del]

lemma iteration_of_simps [simp]:
  "it_now (iteration_of d l st now) = now"
  "it_state (iteration_of d l st now) = st"
  "it_elapsed (iteration_of d l st now) = elapsed_at st now"
  "it_remaining (iteration_of d l st now) = real_of_int d - elapsed_at st now"
  "it_completed (iteration_of d l st now) = min (elapsed_at st now) (real_of_int d)"
  "it_total (iteration_of d l st now) = d"
  "it_header (iteration_of d l st now) = build_header l (real_of_int d - elapsed_at st now) (real_of_int d) (paused st)"
  by (simp_all add: iteration_of_def)

lemma run_loop_iterations:
  "it \<in> set (fst (run_loop d l st rs)) \<Longrightarrow> it = iteration_of d l (it_state it) (it_now it)"
proof (induction rs arbitrary: st)
  case Nil
  then show ?case by simp
next
  case (Cons r rs)
  obtain now key where r: "r = (now, key)" by (cases r)
  from Cons.prems show ?case
    unfolding r run_loop_Cons
    by (auto split: option.splits if_splits dest: Cons.IH)
qed

lemma run_loop_nth:
  assumes "i < length (fst (run_loop d l st rs))"
  shows "i < length rs \<and> it_now (fst (run_loop d l st rs) ! i) = fst (rs ! i) \<and>
         handle_key (snd (rs ! i)) (fst (rs ! i))
           (if i = 0 then st else it_state (fst (run_loop d l st rs) ! (i - 1)))
           = Some (it_state (fst (run_loop d l st rs) ! i))"
  using assms
proof (induction rs arbitrary: st i)
  case Nil
  then show ?case by simp
next
  case (Cons r rs)
  obtain now key where r: "r = (now, key)" by (cases r)
  show ?case
  proof (cases "handle_key key now st")
    case None
    with Cons.prems show ?thesis by (simp add: r run_loop_Cons)
  next
    case (Some st')
    show ?thesis
    proof (cases i)
      case 0
      with Some show ?thesis
        by (simp add: r run_loop_Cons)
    next
      case (Suc j)
      from Cons.prems Some Suc
      have ne: "\<not> real_of_int d - elapsed_at st' now \<le> 0"
        by (auto simp: r run_loop_Cons split: if_splits)
      with Some have eq: "fst (run_loop d l st (r # rs)) = iteration_of d l st' now # fst (run_loop d l st' rs)"
        by (simp add: r run_loop_Cons)
      from Cons.prems Suc have j: "j < length (fst (run_loop d l st' rs))"
        by (simp add: eq)
      from Cons.IH[OF j] show ?thesis
        unfolding eq Suc by (cases j) simp_all
    qed
  qed
qed

lemma run_loop_expired_nonempty:
  "snd (run_loop d l st rs) = Expired \<Longrightarrow> fst (run_loop d l st rs) \<noteq> []"
proof (induction rs arbitrary: st)
  case Nil
  then show ?case by simp
next
  case (Cons r rs)
  obtain now key where r: "r = (now, key)" by (cases r)
  from Cons.prems show ?case
    unfolding r run_loop_Cons by (auto split: option.splits if_splits)
qed

lemma run_loop_remaining:
  "i < length (fst (run_loop d l st rs)) \<Longrightarrow>
     (it_remaining (fst (run_loop d l st rs) ! i) \<le> 0) =
       (snd (run_loop d l st rs) = Expired \<and> Suc i = length (fst (run_loop d l st rs)))"
proof (induction rs arbitrary: st i)
  case Nil
  then show ?case by simp
next
  case (Cons r rs)
  obtain now key where r: "r = (now, key)" by (cases r)
  show ?case
  proof (cases "handle_key key now st")
    case None
    with Cons.prems show ?thesis by (simp add: r run_loop_Cons)
  next
    case (Some st')
    show ?thesis
    proof (cases "real_of_int d - elapsed_at st' now \<le> 0")
      case True
      with Some Cons.prems show ?thesis by (simp add: r run_loop_Cons)
    next
      case False
      with Some have eq: "run_loop d l st (r # rs) =
          (iteration_of d l st' now # fst (run_loop d l st' rs), snd (run_loop d l st' rs))"
        by (simp add: r run_loop_Cons)
      show ?thesis
      proof (cases i)
        case 0
        with False show ?thesis
          unfolding eq using run_loop_expired_nonempty[of d l st' rs]
          by (cases "fst (run_loop d l st' rs)") auto
      next
        case (Suc j)
        with Cons.prems have "j < length (fst (run_loop d l st' rs))" by (simp add: eq)
        from Cons.IH[OF this] show ?thesis unfolding eq Suc by simp
      qed
    qed
  qed
qed

lemma run_loop_append:
  "run_loop d l st (pre @ post) =
     (case run_loop d l st pre of
        (its, StillRunning st') \<Rightarrow> (its @ fst (run_loop d l st' post), snd (run_loop d l st' post))
      | (its, e) \<Rightarrow> (its, e))"
proof (induction pre arbitrary: st)
  case Nil
  then show ?case by simp
next
  case (Cons r pre)
  obtain now key where r: "r = (now, key)" by (cases r)
  show ?case
    unfolding r append_Cons run_loop_Cons
    by (auto simp: Cons.IH split: option.splits prod.splits ending.splits)
qed

lemma spec_running_time_snoc:
  "spec_running_time t p (xs @ [(t', p')]) =
     spec_running_time t p xs +
       (if snd (last ((t, p) # xs)) then 0 else t' - fst (last ((t, p) # xs)))"
  by (induction xs arbitrary: t p) auto

lemma run_loop_elapsed_nth:
  assumes "i < length (fst (run_loop d l st rs))"
  shows "it_elapsed (fst (run_loop d l st rs) ! i) = elapsed_at (it_state (fst (run_loop d l st rs) ! i)) (it_now (fst (run_loop d l st rs) ! i))"
proof -
  have "fst (run_loop d l st rs) ! i \<in> set (fst (run_loop d l st rs))" using assms by simp
  from run_loop_iterations[OF this] show ?thesis by (metis iteration_of_simps(1,2,3))
qed

text \<open>Two consecutive iterations.\<close>

lemma run_loop_consecutive:
  assumes "Suc i < length (fst (run_loop d l st rs))"
  shows "it_elapsed (fst (run_loop d l st rs) ! Suc i) =
           it_elapsed (fst (run_loop d l st rs) ! i) +
             (if paused (it_state (fst (run_loop d l st rs) ! i)) then 0
              else it_now (fst (run_loop d l st rs) ! Suc i) - it_now (fst (run_loop d l st rs) ! i))"
proof -
  let ?its = "fst (run_loop d l st rs)"
  from assms have i: "i < length ?its" by simp
  from run_loop_nth[OF assms]
  have k: "handle_key (snd (rs ! Suc i)) (it_now (?its ! Suc i)) (it_state (?its ! i))
             = Some (it_state (?its ! Suc i))"
    by simp
  show ?thesis
    unfolding run_loop_elapsed_nth[OF assms] run_loop_elapsed_nth[OF i]
    by (rule elapsed_step[OF k])
qed

lemma run_loop_first:
  assumes "0 < length (fst (run_loop d l st rs))"
  shows "it_elapsed (fst (run_loop d l st rs) ! 0) =
           elapsed_at st t + (if paused st then 0 else it_now (fst (run_loop d l st rs) ! 0) - t)"
proof -
  let ?its = "fst (run_loop d l st rs)"
  from run_loop_nth[OF assms]
  have k: "handle_key (snd (rs ! 0)) (it_now (?its ! 0)) st = Some (it_state (?its ! 0))"
    by simp
  show ?thesis
    unfolding run_loop_elapsed_nth[OF assms] by (rule elapsed_step[OF k])
qed

lemma run_loop_running_time:
  assumes "i < length (fst (run_loop d l st rs))"
  shows "it_elapsed (fst (run_loop d l st rs) ! i) =
           elapsed_at st t + spec_running_time t (paused st) (map mode_at (take (Suc i) (fst (run_loop d l st rs))))"
  using assms
proof (induction i)
  case 0
  then show ?case
    using run_loop_first[OF 0, of t]
    by (cases "fst (run_loop d l st rs)") (simp_all add: mode_at_def)
next
  case (Suc i)
  let ?its = "fst (run_loop d l st rs)"
  from Suc.prems have i: "i < length ?its" by simp
  have tk: "take (Suc (Suc i)) ?its = take (Suc i) ?its @ [?its ! Suc i]"
    using Suc.prems by (simp add: take_Suc_conv_app_nth)
  have la: "last ((t, paused st) # map mode_at (take (Suc i) ?its)) = mode_at (?its ! i)"
    using i by (simp add: take_Suc_conv_app_nth)
  have "spec_running_time t (paused st) (map mode_at (take (Suc (Suc i)) ?its)) =
          spec_running_time t (paused st) (map mode_at (take (Suc i) ?its)) +
            (if paused (it_state (?its ! i)) then 0 else it_now (?its ! Suc i) - it_now (?its ! i))"
    unfolding tk map_append list.map mode_at_def[of "?its ! Suc i"] spec_running_time_snoc la
    by (simp add: mode_at_def)
  with Suc.IH[OF i] run_loop_consecutive[OF Suc.prems] show ?case by simp
qed

lemma percent_eq:
  "h_percent (build_header l r t p) = (if t = 0 then 0 else min 100 ((1 - r / t) * 100))"
  by (simp add: build_header_def Let_def)

lemma run_timer_iterations:
  "iterations (run_timer d l tick t0 rs) =
     fst (run_loop d l \<lparr>start = t0, elapsed_before_pause = 0, paused = False\<rparr> rs)"
  "ended (run_timer d l tick t0 rs) =
     snd (run_loop d l \<lparr>start = t0, elapsed_before_pause = 0, paused = False\<rparr> rs)"
  "message (run_timer d l tick t0 rs) =
     (if ended (run_timer d l tick t0 rs) = Expired then Some (''Time'' @ [CHR 0x27] @ ''s up!'') else None)"
  by (simp_all add: run_timer_def split: prod.splits)

lemma percent_mono:
  fixes d :: real
  assumes "0 \<le> d" "e \<le> e'"
  shows "h_percent (build_header l (d - e) d p) \<le> h_percent (build_header l' (d - e') d p')"
proof (cases "d = 0")
  case True
  then show ?thesis by (simp add: percent_eq)
next
  case False
  with assms have "0 < d" by simp
  with assms(2) have "(d - e') / d \<le> (d - e) / d" by (simp add: divide_right_mono)
  then have "1 - (d - e) / d \<le> 1 - (d - e') / d" by (rule diff_left_mono)
  then have "(1 - (d - e) / d) * 100 \<le> (1 - (d - e') / d) * 100"
    by (rule mult_right_mono) simp
  then have "min 100 ((1 - (d - e) / d) * 100) \<le> min 100 ((1 - (d - e') / d) * 100)"
    by (rule min.mono[OF order_refl])
  then show ?thesis using False by (simp only: percent_eq if_False)
qed

lemma run_loop_header_nth:
  assumes "i < length (fst (run_loop d l st rs))"
  shows "it_header (fst (run_loop d l st rs) ! i) =
           build_header l (real_of_int d - it_elapsed (fst (run_loop d l st rs) ! i))
             (real_of_int d) (paused (it_state (fst (run_loop d l st rs) ! i)))"
proof -
  have "fst (run_loop d l st rs) ! i \<in> set (fst (run_loop d l st rs))" using assms by simp
  from run_loop_iterations[OF this] show ?thesis
    by (metis iteration_of_simps(1,2,3,7))
qed

lemma run_loop_percent_step:
  assumes d: "0 \<le> d" and s: "sorted (map fst rs)"
    and i: "Suc i < length (fst (run_loop d l st rs))"
  shows "h_percent (it_header (fst (run_loop d l st rs) ! i))
           \<le> h_percent (it_header (fst (run_loop d l st rs) ! Suc i))"
    and "paused (it_state (fst (run_loop d l st rs) ! i)) \<Longrightarrow>
         h_percent (it_header (fst (run_loop d l st rs) ! Suc i))
           = h_percent (it_header (fst (run_loop d l st rs) ! i))"
proof -
  let ?its = "fst (run_loop d l st rs)"
  from i have i0: "i < length ?its" by simp
  from run_loop_nth[OF i] run_loop_nth[OF i0]
  have n: "Suc i < length rs" "it_now (?its ! Suc i) = fst (rs ! Suc i)" "it_now (?its ! i) = fst (rs ! i)"
    by simp_all
  have "fst (rs ! i) \<le> fst (rs ! Suc i)"
    using s n(1) sorted_nth_mono[of "map fst rs" i "Suc i"] by simp
  then have le: "it_now (?its ! i) \<le> it_now (?its ! Suc i)" using n by simp
  note c = run_loop_consecutive[OF i]
  have e: "it_elapsed (?its ! i) \<le> it_elapsed (?its ! Suc i)"
    unfolding c using le by simp
  show "h_percent (it_header (?its ! i)) \<le> h_percent (it_header (?its ! Suc i))"
    unfolding run_loop_header_nth[OF i] run_loop_header_nth[OF i0]
    using d e by (intro percent_mono) simp_all
  show "h_percent (it_header (?its ! Suc i)) = h_percent (it_header (?its ! i))"
    if "paused (it_state (?its ! i))"
    unfolding run_loop_header_nth[OF i] run_loop_header_nth[OF i0]
    using c that by (simp add: percent_eq)
qed

lemma main_Returned:
  assumes "main v l tick t0 rs = Returned r"
  shows "\<exists>n. parse_duration v = Inr n \<and> 0 < n \<and> 0 < tick \<and> r = run_timer n l tick t0 rs"
  using assms
  by (auto simp: main_def validate_duration_def split: sum.splits error.splits if_splits)

lemma run_timer_percent_sorted:
  assumes "0 \<le> d" "sorted (map fst rs)"
  shows "sorted (map (\<lambda>it. h_percent (it_header it)) (iterations (run_timer d l tick t0 rs)))"
  unfolding run_timer_iterations(1) sorted_iff_nth_Suc
  using run_loop_percent_step(1)[OF assms] by simp

lemmas run_eval = run_timer_iterations run_loop_Cons handle_key_def lower_eval elapsed_at_def Let_def

section \<open>Claims about the loop and main\<close>

text \<open>
  C1. The key \<open>p\<close>, \<open>P\<close> or space while running adds \<open>now - start\<close> to
  \<open>elapsed_before_pause\<close> and pauses; while paused it sets \<open>start\<close> to \<open>now\<close> and resumes. So,
  for every sequence of readings, from one iteration to the next \<open>elapsed\<close> grows by nothing
  when the timer was paused after the first of the two and by the difference of the two
  clock readings when it was running; \<open>elapsed\<close> at each iteration is the time spent running
  since the start, as \<open>spec_running_time\<close> sums it over the iterations so far; and
  \<open>elapsed_before_pause\<close> is that time while paused, and that time less the running interval
  in progress while running.
\<close>

theorem pause_resume_elapsed:
  "(\<forall>k now st. (k = ''p'' \<or> k = ''P'' \<or> k = '' '') \<and> \<not> paused st \<longrightarrow>
      handle_key (Some k) now st =
        Some (st\<lparr>elapsed_before_pause := elapsed_before_pause st + (now - start st), paused := True\<rparr>)) \<and>
   (\<forall>k now st. (k = ''p'' \<or> k = ''P'' \<or> k = '' '') \<and> paused st \<longrightarrow>
      handle_key (Some k) now st = Some (st\<lparr>start := now, paused := False\<rparr>)) \<and>
   (\<forall>d l tick t0 rs i. Suc i < length (iterations (run_timer d l tick t0 rs)) \<longrightarrow>
      it_elapsed (iterations (run_timer d l tick t0 rs) ! Suc i) =
        it_elapsed (iterations (run_timer d l tick t0 rs) ! i) +
          (if paused (it_state (iterations (run_timer d l tick t0 rs) ! i)) then 0
           else it_now (iterations (run_timer d l tick t0 rs) ! Suc i)
                  - it_now (iterations (run_timer d l tick t0 rs) ! i))) \<and>
   (\<forall>d l tick t0 rs i. i < length (iterations (run_timer d l tick t0 rs)) \<longrightarrow>
      it_elapsed (iterations (run_timer d l tick t0 rs) ! i) =
        spec_running_time t0 False
          (map mode_at (take (Suc i) (iterations (run_timer d l tick t0 rs)))) \<and>
      elapsed_before_pause (it_state (iterations (run_timer d l tick t0 rs) ! i)) =
        it_elapsed (iterations (run_timer d l tick t0 rs) ! i) -
          (if paused (it_state (iterations (run_timer d l tick t0 rs) ! i)) then 0
           else it_now (iterations (run_timer d l tick t0 rs) ! i)
                  - start (it_state (iterations (run_timer d l tick t0 rs) ! i))))"
proof -
  have a: "(k = ''p'' \<or> k = ''P'' \<or> k = '' '') \<and> \<not> paused st \<longrightarrow>
      handle_key (Some k) now st =
        Some (st\<lparr>elapsed_before_pause := elapsed_before_pause st + (now - start st), paused := True\<rparr>)"
    for k now st
    using handle_key_toggle[of k now st] by auto
  have b: "(k = ''p'' \<or> k = ''P'' \<or> k = '' '') \<and> paused st \<longrightarrow>
      handle_key (Some k) now st = Some (st\<lparr>start := now, paused := False\<rparr>)"
    for k now st
    using handle_key_toggle[of k now st] by auto
  have c: "Suc i < length (iterations (run_timer d l tick t0 rs)) \<longrightarrow>
      it_elapsed (iterations (run_timer d l tick t0 rs) ! Suc i) =
        it_elapsed (iterations (run_timer d l tick t0 rs) ! i) +
          (if paused (it_state (iterations (run_timer d l tick t0 rs) ! i)) then 0
           else it_now (iterations (run_timer d l tick t0 rs) ! Suc i)
                  - it_now (iterations (run_timer d l tick t0 rs) ! i))"
    for d l tick t0 rs i
    unfolding run_timer_iterations(1) using run_loop_consecutive by blast
  have e: "i < length (iterations (run_timer d l tick t0 rs)) \<longrightarrow>
      it_elapsed (iterations (run_timer d l tick t0 rs) ! i) =
        spec_running_time t0 False
          (map mode_at (take (Suc i) (iterations (run_timer d l tick t0 rs)))) \<and>
      elapsed_before_pause (it_state (iterations (run_timer d l tick t0 rs) ! i)) =
        it_elapsed (iterations (run_timer d l tick t0 rs) ! i) -
          (if paused (it_state (iterations (run_timer d l tick t0 rs) ! i)) then 0
           else it_now (iterations (run_timer d l tick t0 rs) ! i)
                  - start (it_state (iterations (run_timer d l tick t0 rs) ! i)))"
    for d l tick t0 rs i
  proof
    let ?st = "\<lparr>start = t0, elapsed_before_pause = 0, paused = False\<rparr>"
    let ?its = "fst (run_loop d l ?st rs)"
    assume "i < length (iterations (run_timer d l tick t0 rs))"
    then have i: "i < length ?its" by (simp add: run_timer_iterations(1))
    have 1: "it_elapsed (?its ! i) = spec_running_time t0 False (map mode_at (take (Suc i) ?its))"
      using run_loop_running_time[OF i, of t0] by (simp add: elapsed_at_def)
    have 2: "elapsed_before_pause (it_state (?its ! i)) =
        it_elapsed (?its ! i) -
          (if paused (it_state (?its ! i)) then 0 else it_now (?its ! i) - start (it_state (?its ! i)))"
      unfolding run_loop_elapsed_nth[OF i] by (simp add: elapsed_at_def)
    show "it_elapsed (iterations (run_timer d l tick t0 rs) ! i) =
        spec_running_time t0 False
          (map mode_at (take (Suc i) (iterations (run_timer d l tick t0 rs)))) \<and>
      elapsed_before_pause (it_state (iterations (run_timer d l tick t0 rs) ! i)) =
        it_elapsed (iterations (run_timer d l tick t0 rs) ! i) -
          (if paused (it_state (iterations (run_timer d l tick t0 rs) ! i)) then 0
           else it_now (iterations (run_timer d l tick t0 rs) ! i)
                  - start (it_state (iterations (run_timer d l tick t0 rs) ! i)))"
      unfolding run_timer_iterations(1) using 1 2 by (rule conjI)
  qed
  show ?thesis by (intro conjI allI a b c e)
qed

theorem pause_resume_elapsed_witness:
  "\<not> paused \<lparr>start = 0, elapsed_before_pause = 0, paused = False\<rparr> \<and>
   handle_key (Some ''p'') 2 \<lparr>start = 0, elapsed_before_pause = 0, paused = False\<rparr>
     = Some \<lparr>start = 0, elapsed_before_pause = 2, paused = True\<rparr> \<and>
   paused \<lparr>start = 0, elapsed_before_pause = 2, paused = True\<rparr> \<and>
   handle_key (Some '' '') 100 \<lparr>start = 0, elapsed_before_pause = 2, paused = True\<rparr>
     = Some \<lparr>start = 100, elapsed_before_pause = 2, paused = False\<rparr> \<and>
   length (iterations (run_timer 1000 ''Countdown'' 0.1 0
      [(2, Some ''p''), (100, Some ''P''), (103, Some '' ''), (1000, Some ''p''), (1001, None)])) = 5 \<and>
   map mode_at (iterations (run_timer 1000 ''Countdown'' 0.1 0
      [(2, Some ''p''), (100, Some ''P''), (103, Some '' ''), (1000, Some ''p''), (1001, None)]))
     = [(2, True), (100, False), (103, True), (1000, False), (1001, False)] \<and>
   it_elapsed (iterations (run_timer 1000 ''Countdown'' 0.1 0
      [(2, Some ''p''), (100, Some ''P''), (103, Some '' ''), (1000, Some ''p''), (1001, None)]) ! 4) = 6 \<and>
   elapsed_before_pause (it_state (iterations (run_timer 1000 ''Countdown'' 0.1 0
      [(2, Some ''p''), (100, Some ''P''), (103, Some '' ''), (1000, Some ''p''), (1001, None)]) ! 4)) = 5 \<and>
   it_elapsed (iterations (run_timer 1000 ''Countdown'' 0.1 0
      [(2, Some ''p''), (100, Some ''P''), (103, Some '' ''), (1000, Some ''p''), (1001, None)]) ! 3)
     = it_elapsed (iterations (run_timer 1000 ''Countdown'' 0.1 0
      [(2, Some ''p''), (100, Some ''P''), (103, Some '' ''), (1000, Some ''p''), (1001, None)]) ! 2)"
proof -
  note T = pause_resume_elapsed
  let ?rs = "[(2, Some ''p''), (100, Some ''P''), (103, Some '' ''), (1000, Some ''p''), (1001, None)]"
  let ?its = "iterations (run_timer 1000 ''Countdown'' 0.1 0 ?rs)"
  let ?s0 = "\<lparr>start = 0, elapsed_before_pause = 0, paused = False\<rparr>"
  let ?s1 = "\<lparr>start = 0, elapsed_before_pause = 2, paused = True\<rparr>"
  have its: "?its =
     [iteration_of 1000 ''Countdown'' \<lparr>start = 0, elapsed_before_pause = 2, paused = True\<rparr> 2,
      iteration_of 1000 ''Countdown'' \<lparr>start = 100, elapsed_before_pause = 2, paused = False\<rparr> 100,
      iteration_of 1000 ''Countdown'' \<lparr>start = 100, elapsed_before_pause = 5, paused = True\<rparr> 103,
      iteration_of 1000 ''Countdown'' \<lparr>start = 1000, elapsed_before_pause = 5, paused = False\<rparr> 1000,
      iteration_of 1000 ''Countdown'' \<lparr>start = 1000, elapsed_before_pause = 5, paused = False\<rparr> 1001]"
    by (simp add: run_eval)
  have c1: "\<not> paused ?s0" by simp
  have c2: "handle_key (Some ''p'') 2 ?s0 = Some ?s1"
    using T[THEN conjunct1, rule_format, of "''p''" ?s0 2] by simp
  have c3: "paused ?s1" by simp
  have c4: "handle_key (Some '' '') 100 ?s1 = Some \<lparr>start = 100, elapsed_before_pause = 2, paused = False\<rparr>"
    using T[THEN conjunct2, THEN conjunct1, rule_format, of "'' ''" ?s1 100] by simp
  have c5: "length ?its = 5" by (simp add: its)
  have c6: "map mode_at ?its = [(2, True), (100, False), (103, True), (1000, False), (1001, False)]"
    by (simp add: its mode_at_def)
  have i4: "4 < length ?its" and i3: "Suc 2 < length ?its" by (simp_all add: c5)
  note A = T[THEN conjunct2, THEN conjunct2, THEN conjunct2, rule_format, OF i4]
  have tk: "take (Suc 4) ?its = ?its" by (simp add: c5)
  have c7: "it_elapsed (?its ! 4) = 6"
    unfolding A[THEN conjunct1] tk c6 by simp
  have c8: "elapsed_before_pause (it_state (?its ! 4)) = 5"
    unfolding A[THEN conjunct2] c7 by (simp add: its)
  have p2: "paused (it_state (?its ! 2))" by (simp add: its)
  have c9: "it_elapsed (?its ! 3) = it_elapsed (?its ! 2)"
    using T[THEN conjunct2, THEN conjunct2, THEN conjunct1, rule_format, OF i3] p2
    by (simp add: numeral_3_eq_3)
  show ?thesis by (intro conjI c1 c2 c3 c4 c5 c6 c7 c8 c9)
qed

text \<open>
  C2. For a fixed duration that is not negative and clock readings that do not decrease, the
  percentage shown does not decrease from one iteration to the next, so the percentages of
  a run are sorted; and it is the same at the next iteration whenever the timer is paused
  after the key of an iteration. The runs that \<open>main\<close> starts have a positive duration, so
  their percentages are sorted whenever the clock readings are.
\<close>

theorem percent_monotone_running_constant_paused:
  "(\<forall>d l tick t0 rs. 0 \<le> d \<and> sorted (map fst rs) \<longrightarrow>
      sorted (map (\<lambda>it. h_percent (it_header it)) (iterations (run_timer d l tick t0 rs))) \<and>
      (\<forall>i. Suc i < length (iterations (run_timer d l tick t0 rs)) \<longrightarrow>
         h_percent (it_header (iterations (run_timer d l tick t0 rs) ! i))
           \<le> h_percent (it_header (iterations (run_timer d l tick t0 rs) ! Suc i))) \<and>
      (\<forall>i. Suc i < length (iterations (run_timer d l tick t0 rs)) \<and>
           paused (it_state (iterations (run_timer d l tick t0 rs) ! i)) \<longrightarrow>
         h_percent (it_header (iterations (run_timer d l tick t0 rs) ! Suc i))
           = h_percent (it_header (iterations (run_timer d l tick t0 rs) ! i)))) \<and>
   (\<forall>v l tick t0 rs r. main v l tick t0 rs = Returned r \<and> sorted (map fst rs) \<longrightarrow>
      sorted (map (\<lambda>it. h_percent (it_header it)) (iterations r)))"
proof -
  have a: "0 \<le> d \<and> sorted (map fst rs) \<longrightarrow>
      sorted (map (\<lambda>it. h_percent (it_header it)) (iterations (run_timer d l tick t0 rs))) \<and>
      (\<forall>i. Suc i < length (iterations (run_timer d l tick t0 rs)) \<longrightarrow>
         h_percent (it_header (iterations (run_timer d l tick t0 rs) ! i))
           \<le> h_percent (it_header (iterations (run_timer d l tick t0 rs) ! Suc i))) \<and>
      (\<forall>i. Suc i < length (iterations (run_timer d l tick t0 rs)) \<and>
           paused (it_state (iterations (run_timer d l tick t0 rs) ! i)) \<longrightarrow>
         h_percent (it_header (iterations (run_timer d l tick t0 rs) ! Suc i))
           = h_percent (it_header (iterations (run_timer d l tick t0 rs) ! i)))"
    for d :: int and l tick t0 rs
  proof
    assume h: "0 \<le> d \<and> sorted (map fst rs)"
    then have d: "0 \<le> d" and s: "sorted (map fst rs)" by simp_all
    show "sorted (map (\<lambda>it. h_percent (it_header it)) (iterations (run_timer d l tick t0 rs))) \<and>
      (\<forall>i. Suc i < length (iterations (run_timer d l tick t0 rs)) \<longrightarrow>
         h_percent (it_header (iterations (run_timer d l tick t0 rs) ! i))
           \<le> h_percent (it_header (iterations (run_timer d l tick t0 rs) ! Suc i))) \<and>
      (\<forall>i. Suc i < length (iterations (run_timer d l tick t0 rs)) \<and>
           paused (it_state (iterations (run_timer d l tick t0 rs) ! i)) \<longrightarrow>
         h_percent (it_header (iterations (run_timer d l tick t0 rs) ! Suc i))
           = h_percent (it_header (iterations (run_timer d l tick t0 rs) ! i)))"
      using run_timer_percent_sorted[OF d s] run_loop_percent_step[OF d s]
      unfolding run_timer_iterations(1) by blast
  qed
  have b: "main v l tick t0 rs = Returned r \<and> sorted (map fst rs) \<longrightarrow>
      sorted (map (\<lambda>it. h_percent (it_header it)) (iterations r))" for v l tick t0 rs r
  proof
    assume h: "main v l tick t0 rs = Returned r \<and> sorted (map fst rs)"
    then obtain n where n: "0 < n" "r = run_timer n l tick t0 rs"
      using main_Returned by blast
    from n(1) have "0 \<le> n" by simp
    from run_timer_percent_sorted[OF this] h show
      "sorted (map (\<lambda>it. h_percent (it_header it)) (iterations r))"
      unfolding n(2) by blast
  qed
  show ?thesis by (intro conjI allI a b)
qed

theorem percent_monotone_running_constant_paused_witness:
  "(0::int) \<le> 1000 \<and>
   sorted (map fst [(2::real, Some ''p''), (100, Some ''P''), (103, None), (1000, Some ''p''), (1001, None)]) \<and>
   sorted (map (\<lambda>it. h_percent (it_header it)) (iterations (run_timer 1000 ''Countdown'' 0.1 0
      [(2, Some ''p''), (100, Some ''P''), (103, None), (1000, Some ''p''), (1001, None)]))) \<and>
   map (\<lambda>it. h_percent (it_header it)) (iterations (run_timer 1000 ''Countdown'' 0.1 0
      [(2, Some ''p''), (100, Some ''P''), (103, None), (1000, Some ''p''), (1001, None)]))
     = [2 / 10, 2 / 10, 5 / 10, 902 / 10, 902 / 10] \<and>
   paused (it_state (iterations (run_timer 1000 ''Countdown'' 0.1 0
      [(2, Some ''p''), (100, Some ''P''), (103, None), (1000, Some ''p''), (1001, None)]) ! 0)) \<and>
   h_percent (it_header (iterations (run_timer 1000 ''Countdown'' 0.1 0
      [(2, Some ''p''), (100, Some ''P''), (103, None), (1000, Some ''p''), (1001, None)]) ! Suc 0))
     = h_percent (it_header (iterations (run_timer 1000 ''Countdown'' 0.1 0
      [(2, Some ''p''), (100, Some ''P''), (103, None), (1000, Some ''p''), (1001, None)]) ! 0)) \<and>
   main ''1000'' ''Countdown'' 0.1 0 [(2, Some ''p''), (100, Some ''P''), (103, None), (1000, Some ''p''), (1001, None)]
     = Returned (run_timer 1000 ''Countdown'' 0.1 0
      [(2, Some ''p''), (100, Some ''P''), (103, None), (1000, Some ''p''), (1001, None)])"
proof -
  note T = percent_monotone_running_constant_paused
  let ?rs = "[(2::real, Some ''p''), (100, Some ''P''), (103, None), (1000, Some ''p''), (1001, None)]"
  let ?its = "iterations (run_timer 1000 ''Countdown'' 0.1 0 ?rs)"
  have its: "?its =
     [iteration_of 1000 ''Countdown'' \<lparr>start = 0, elapsed_before_pause = 2, paused = True\<rparr> 2,
      iteration_of 1000 ''Countdown'' \<lparr>start = 100, elapsed_before_pause = 2, paused = False\<rparr> 100,
      iteration_of 1000 ''Countdown'' \<lparr>start = 100, elapsed_before_pause = 2, paused = False\<rparr> 103,
      iteration_of 1000 ''Countdown'' \<lparr>start = 100, elapsed_before_pause = 902, paused = True\<rparr> 1000,
      iteration_of 1000 ''Countdown'' \<lparr>start = 100, elapsed_before_pause = 902, paused = True\<rparr> 1001]"
    by (simp add: run_eval)
  have c1: "(0::int) \<le> 1000" by simp
  have c2: "sorted (map fst ?rs)" by simp
  from c1 c2 have h: "(0::int) \<le> 1000 \<and> sorted (map fst ?rs)" by (rule conjI)
  note A = T[THEN conjunct1, rule_format, OF h, of "''Countdown''" "0.1" 0]
  have c3: "sorted (map (\<lambda>it. h_percent (it_header it)) ?its)" by (rule A[THEN conjunct1])
  have c4: "map (\<lambda>it. h_percent (it_header it)) ?its = [2 / 10, 2 / 10, 5 / 10, 902 / 10, 902 / 10]"
    by (simp add: its percent_eq elapsed_at_def)
  have c5: "paused (it_state (?its ! 0))" by (simp add: its)
  have l: "Suc 0 < length ?its" by (simp add: its)
  from l c5 have h2: "Suc 0 < length ?its \<and> paused (it_state (?its ! 0))" by (rule conjI)
  have c6: "h_percent (it_header (?its ! Suc 0)) = h_percent (it_header (?its ! 0))"
    by (rule A[THEN conjunct2, THEN conjunct2, rule_format, OF h2])
  have c7: "main ''1000'' ''Countdown'' 0.1 0 ?rs = Returned (run_timer 1000 ''Countdown'' 0.1 0 ?rs)"
    by (simp add: main_def validate_duration_def parse_eval)
  show ?thesis by (intro conjI c1 c2 c3 c4 c5 c6 c7)
qed

text \<open>
  C3. The percentage of \<open>build_header\<close> is 0 when the total is 0 and otherwise the smaller
  of 100 and \<open>(1 - remaining / total) * 100\<close>; it never exceeds 100, whatever the remaining
  time, a negative one included; for the total 100 and 25 elapsed, so 75 remaining, it is
  25.
\<close>

theorem percent_complete_clamped:
  "(\<forall>l r p. h_percent (build_header l r 0 p) = 0) \<and>
   (\<forall>l r t p. t \<noteq> 0 \<longrightarrow> h_percent (build_header l r t p) = min 100 ((1 - r / t) * 100)) \<and>
   (\<forall>l r t p. h_percent (build_header l r t p) \<le> 100) \<and>
   (\<forall>l p. h_percent (build_header l (100 - 25) 100 p) = 25) \<and>
   (\<forall>l st now. elapsed_at st now = 25 \<longrightarrow>
      h_percent (it_header (iteration_of 100 l st now)) = 25)"
proof -
  have a: "h_percent (build_header l r 0 p) = 0" for l r p by (simp add: percent_eq)
  have b: "t \<noteq> 0 \<longrightarrow> h_percent (build_header l r t p) = min 100 ((1 - r / t) * 100)" for l r t p
    by (simp add: percent_eq)
  have c: "h_percent (build_header l r t p) \<le> 100" for l r t p by (simp add: percent_eq)
  have d: "h_percent (build_header l (100 - 25) 100 p) = 25" for l p by (simp add: percent_eq)
  have e: "elapsed_at st now = 25 \<longrightarrow> h_percent (it_header (iteration_of 100 l st now)) = 25"
    for l st now by (simp add: percent_eq)
  show ?thesis by (intro conjI allI a b c d e)
qed

theorem percent_complete_clamped_witness:
  "(200::real) \<noteq> 0 \<and> h_percent (build_header ''Countdown'' (- 10) 200 False) = 100 \<and>
   min (100::real) ((1 - (- 10) / 200) * 100) = 100 \<and>
   elapsed_at \<lparr>start = 0, elapsed_before_pause = 25, paused = True\<rparr> 7 = 25 \<and>
   h_percent (it_header (iteration_of 100 ''Countdown''
      \<lparr>start = 0, elapsed_before_pause = 25, paused = True\<rparr> 7)) = 25"
proof -
  note T = percent_complete_clamped
  have m: "min (100::real) ((1 - (- 10) / 200) * 100) = 100" by simp
  have a: "h_percent (build_header ''Countdown'' (- 10) 200 False) = min 100 ((1 - (- 10) / 200) * 100)"
    by (rule T[THEN conjunct2, THEN conjunct1, rule_format]) simp
  have e: "elapsed_at \<lparr>start = 0, elapsed_before_pause = 25, paused = True\<rparr> 7 = 25"
    by (simp add: elapsed_at_def)
  have b: "h_percent (it_header (iteration_of 100 ''Countdown''
      \<lparr>start = 0, elapsed_before_pause = 25, paused = True\<rparr> 7)) = 25"
    by (rule T[THEN conjunct2, THEN conjunct2, THEN conjunct2, THEN conjunct2, rule_format, OF e])
  have n: "(200::real) \<noteq> 0" by simp
  show ?thesis
    by (intro conjI n m e b) (simp only: a m)
qed

text \<open>
  C7. The quit key \<open>q\<close> or \<open>Q\<close> ends the loop at once in any state, at the first reading or
  after any readings, with no further redraw, and a run ended by it prints no message. When
  the remaining time is 0 or less after the key of an iteration, the loop redraws once more
  and ends as expired; an expired run prints the message \<open>Time's up!\<close>, its last iteration has
  a remaining time of 0 or less and every earlier one a positive remaining time. The key \<open>s\<close>
  or \<open>S\<close> while paused sets \<open>start\<close> to the clock reading and resumes, and changes nothing
  while running; a key that is none of \<open>q\<close>, \<open>p\<close>, space and \<open>s\<close>, in either case, and no key at
  all leave the state unchanged.
\<close>

theorem quit_expiry_and_start_keys:
  "(\<forall>d l st now rs k. k = ''q'' \<or> k = ''Q'' \<longrightarrow>
      run_loop d l st ((now, Some k) # rs) = ([], Quit)) \<and>
   (\<forall>d l st pre its st' now rs k.
      (k = ''q'' \<or> k = ''Q'') \<and> run_loop d l st pre = (its, StillRunning st') \<longrightarrow>
      run_loop d l st (pre @ (now, Some k) # rs) = (its, Quit)) \<and>
   (\<forall>d l tick t0 rs. ended (run_timer d l tick t0 rs) = Quit \<longrightarrow>
      message (run_timer d l tick t0 rs) = None) \<and>
   (\<forall>d l st now key rs st'.
      handle_key key now st = Some st' \<and> real_of_int d - elapsed_at st' now \<le> 0 \<longrightarrow>
      run_loop d l st ((now, key) # rs) = ([iteration_of d l st' now], Expired)) \<and>
   (\<forall>d l tick t0 rs. ended (run_timer d l tick t0 rs) = Expired \<longrightarrow>
      message (run_timer d l tick t0 rs) = Some (''Time'' @ [CHR 0x27] @ ''s up!'') \<and>
      iterations (run_timer d l tick t0 rs) \<noteq> [] \<and>
      it_remaining (last (iterations (run_timer d l tick t0 rs))) \<le> 0 \<and>
      (\<forall>i. Suc i < length (iterations (run_timer d l tick t0 rs)) \<longrightarrow>
           0 < it_remaining (iterations (run_timer d l tick t0 rs) ! i))) \<and>
   (\<forall>k now st. (k = ''s'' \<or> k = ''S'') \<and> paused st \<longrightarrow>
      handle_key (Some k) now st = Some (st\<lparr>start := now, paused := False\<rparr>)) \<and>
   (\<forall>k now st. (k = ''s'' \<or> k = ''S'') \<and> \<not> paused st \<longrightarrow> handle_key (Some k) now st = Some st) \<and>
   (\<forall>k now st. lower k \<noteq> ''q'' \<and> lower k \<noteq> ''p'' \<and> lower k \<noteq> '' '' \<and> lower k \<noteq> ''s'' \<longrightarrow>
      handle_key (Some k) now st = Some st) \<and>
   (\<forall>now st. handle_key None now st = Some st)"
proof -
  have a: "k = ''q'' \<or> k = ''Q'' \<longrightarrow> run_loop d l st ((now, Some k) # rs) = ([], Quit)"
    for d l st now rs k
    by (auto simp: run_loop_Cons handle_key_quit)
  have b: "(k = ''q'' \<or> k = ''Q'') \<and> run_loop d l st pre = (its, StillRunning st') \<longrightarrow>
      run_loop d l st (pre @ (now, Some k) # rs) = (its, Quit)"
    for d l st pre its st' now rs k
    by (auto simp: run_loop_append run_loop_Cons handle_key_quit)
  have c: "ended (run_timer d l tick t0 rs) = Quit \<longrightarrow> message (run_timer d l tick t0 rs) = None"
    for d l tick t0 rs
    by (simp add: run_timer_iterations(3))
  have x: "handle_key key now st = Some st' \<and> real_of_int d - elapsed_at st' now \<le> 0 \<longrightarrow>
      run_loop d l st ((now, key) # rs) = ([iteration_of d l st' now], Expired)"
    for d l st now key rs st'
    by (simp add: run_loop_Cons)
  have e: "ended (run_timer d l tick t0 rs) = Expired \<longrightarrow>
      message (run_timer d l tick t0 rs) = Some (''Time'' @ [CHR 0x27] @ ''s up!'') \<and>
      iterations (run_timer d l tick t0 rs) \<noteq> [] \<and>
      it_remaining (last (iterations (run_timer d l tick t0 rs))) \<le> 0 \<and>
      (\<forall>i. Suc i < length (iterations (run_timer d l tick t0 rs)) \<longrightarrow>
           0 < it_remaining (iterations (run_timer d l tick t0 rs) ! i))"
    for d l tick t0 rs
  proof
    let ?st = "\<lparr>start = t0, elapsed_before_pause = 0, paused = False\<rparr>"
    let ?its = "fst (run_loop d l ?st rs)"
    assume "ended (run_timer d l tick t0 rs) = Expired"
    then have ex: "snd (run_loop d l ?st rs) = Expired" by (simp add: run_timer_iterations(2))
    have ne: "?its \<noteq> []" by (rule run_loop_expired_nonempty[OF ex])
    then have li: "length ?its - 1 < length ?its" by (cases ?its) simp_all
    have la: "it_remaining (last ?its) \<le> 0"
      using run_loop_remaining[OF li] ex ne by (simp add: last_conv_nth)
    have ea: "0 < it_remaining (?its ! i)" if "Suc i < length ?its" for i
    proof -
      from that have "i < length ?its" by simp
      from run_loop_remaining[OF this] that show ?thesis by auto
    qed
    show "message (run_timer d l tick t0 rs) = Some (''Time'' @ [CHR 0x27] @ ''s up!'') \<and>
      iterations (run_timer d l tick t0 rs) \<noteq> [] \<and>
      it_remaining (last (iterations (run_timer d l tick t0 rs))) \<le> 0 \<and>
      (\<forall>i. Suc i < length (iterations (run_timer d l tick t0 rs)) \<longrightarrow>
           0 < it_remaining (iterations (run_timer d l tick t0 rs) ! i))"
      unfolding run_timer_iterations(1) using ex ne la ea
      by (simp add: run_timer_iterations(2,3))
  qed
  have f: "(k = ''s'' \<or> k = ''S'') \<and> paused st \<longrightarrow>
      handle_key (Some k) now st = Some (st\<lparr>start := now, paused := False\<rparr>)" for k now st
    using handle_key_start[of k now st] by auto
  have g: "(k = ''s'' \<or> k = ''S'') \<and> \<not> paused st \<longrightarrow> handle_key (Some k) now st = Some st"
    for k now st
    using handle_key_start[of k now st] by auto
  have h: "lower k \<noteq> ''q'' \<and> lower k \<noteq> ''p'' \<and> lower k \<noteq> '' '' \<and> lower k \<noteq> ''s'' \<longrightarrow>
      handle_key (Some k) now st = Some st" for k now st
    using handle_key_other[of k now st] by blast
  show ?thesis
    by (intro conjI allI a b c x e f g h handle_key_none)
qed

theorem quit_expiry_and_start_keys_witness:
  "run_loop 5 ''Countdown'' \<lparr>start = 0, elapsed_before_pause = 1, paused = True\<rparr> [(3, Some ''Q''), (4, None)]
     = ([], Quit) \<and>
   ended (run_timer 5 ''Countdown'' 0.1 0 [(1, None), (2, Some ''q''), (9, None)]) = Quit \<and>
   message (run_timer 5 ''Countdown'' 0.1 0 [(1, None), (2, Some ''q''), (9, None)]) = None \<and>
   ended (run_timer 5 ''Countdown'' 0.1 0 [(1, None), (6, None), (7, None)]) = Expired \<and>
   message (run_timer 5 ''Countdown'' 0.1 0 [(1, None), (6, None), (7, None)])
     = Some (''Time'' @ [CHR 0x27] @ ''s up!'') \<and>
   length (iterations (run_timer 5 ''Countdown'' 0.1 0 [(1, None), (6, None), (7, None)])) = 2 \<and>
   paused \<lparr>start = 0, elapsed_before_pause = 1, paused = True\<rparr> \<and>
   handle_key (Some ''S'') 3 \<lparr>start = 0, elapsed_before_pause = 1, paused = True\<rparr>
     = Some \<lparr>start = 3, elapsed_before_pause = 1, paused = False\<rparr> \<and>
   handle_key (Some ''s'') 3 \<lparr>start = 0, elapsed_before_pause = 1, paused = False\<rparr>
     = Some \<lparr>start = 0, elapsed_before_pause = 1, paused = False\<rparr> \<and>
   lower ''X'' = ''x'' \<and>
   handle_key (Some ''X'') 3 \<lparr>start = 0, elapsed_before_pause = 1, paused = False\<rparr>
     = Some \<lparr>start = 0, elapsed_before_pause = 1, paused = False\<rparr>"
proof -
  note T = quit_expiry_and_start_keys
  let ?p = "\<lparr>start = 0, elapsed_before_pause = 1, paused = True\<rparr>"
  let ?r = "\<lparr>start = 0, elapsed_before_pause = 1, paused = False\<rparr>"
  have c1: "run_loop 5 ''Countdown'' ?p [(3, Some ''Q''), (4, None)] = ([], Quit)"
    by (rule T[THEN conjunct1, rule_format]) simp
  have c2: "ended (run_timer 5 ''Countdown'' 0.1 0 [(1, None), (2, Some ''q''), (9, None)]) = Quit"
    by (simp add: run_eval)
  have c3: "message (run_timer 5 ''Countdown'' 0.1 0 [(1, None), (2, Some ''q''), (9, None)]) = None"
    by (rule T[THEN conjunct2, THEN conjunct2, THEN conjunct1, rule_format, OF c2])
  have c4: "ended (run_timer 5 ''Countdown'' 0.1 0 [(1, None), (6, None), (7, None)]) = Expired"
    by (simp add: run_eval)
  note E = T[THEN conjunct2, THEN conjunct2, THEN conjunct2, THEN conjunct2, THEN conjunct1,
      rule_format, OF c4]
  have c5: "message (run_timer 5 ''Countdown'' 0.1 0 [(1, None), (6, None), (7, None)])
     = Some (''Time'' @ [CHR 0x27] @ ''s up!'')"
    by (rule E[THEN conjunct1])
  have c6: "length (iterations (run_timer 5 ''Countdown'' 0.1 0 [(1, None), (6, None), (7, None)])) = 2"
    by (simp add: run_eval)
  have c7: "paused ?p" by simp
  have c8: "handle_key (Some ''S'') 3 ?p = Some \<lparr>start = 3, elapsed_before_pause = 1, paused = False\<rparr>"
    using T[THEN conjunct2, THEN conjunct2, THEN conjunct2, THEN conjunct2, THEN conjunct2,
      THEN conjunct1, rule_format, of "''S''" ?p 3] by simp
  have c9: "handle_key (Some ''s'') 3 ?r = Some ?r"
    using T[THEN conjunct2, THEN conjunct2, THEN conjunct2, THEN conjunct2, THEN conjunct2,
      THEN conjunct2, THEN conjunct1, rule_format, of "''s''" ?r 3] by simp
  have c10: "lower ''X'' = ''x''" by code_simp
  have c11: "handle_key (Some ''X'') 3 ?r = Some ?r"
    using T[THEN conjunct2, THEN conjunct2, THEN conjunct2, THEN conjunct2, THEN conjunct2,
      THEN conjunct2, THEN conjunct2, THEN conjunct1, rule_format, of "''X''" 3 ?r]
    by (simp add: c10)
  show ?thesis by (intro conjI c1 c2 c3 c4 c5 c6 c7 c8 c9 c10 c11)
qed

text \<open>
  C8. When the duration argument does not parse, or parses to a value of 0 or less, or the
  tick is 0 or less, \<open>main\<close> ends with a parameter error: the exit status of a usage error,
  which is not 0, and nothing shown. With a duration that parses to a positive value and a
  positive tick, \<open>main\<close> runs the timer, and a run ended by the quit key or by expiry exits
  with status 0.
\<close>

theorem invalid_arguments_are_usage_errors:
  "(\<forall>v l tick t0 rs.
      (\<exists>e. parse_duration v = Inl e) \<or> (\<exists>n. parse_duration v = Inr n \<and> n \<le> 0) \<or> tick \<le> 0 \<longrightarrow>
      (\<exists>msg. main v l tick t0 rs = BadParameter msg) \<and>
      exit_status (main v l tick t0 rs) = Some 2 \<and>
      shown (main v l tick t0 rs) = []) \<and>
   (\<forall>v l tick t0 rs n. parse_duration v = Inr n \<and> 0 < n \<and> 0 < tick \<longrightarrow>
      main v l tick t0 rs = Returned (run_timer n l tick t0 rs) \<and>
      shown (main v l tick t0 rs) = iterations (run_timer n l tick t0 rs) \<and>
      (ended (run_timer n l tick t0 rs) = Quit \<or> ended (run_timer n l tick t0 rs) = Expired \<longrightarrow>
         exit_status (main v l tick t0 rs) = Some 0))"
proof -
  have a: "(\<exists>e. parse_duration v = Inl e) \<or> (\<exists>n. parse_duration v = Inr n \<and> n \<le> 0) \<or> tick \<le> 0 \<longrightarrow>
      (\<exists>msg. main v l tick t0 rs = BadParameter msg) \<and>
      exit_status (main v l tick t0 rs) = Some 2 \<and>
      shown (main v l tick t0 rs) = []" for v l tick t0 rs
  proof
    assume h: "(\<exists>e. parse_duration v = Inl e) \<or> (\<exists>n. parse_duration v = Inr n \<and> n \<le> 0) \<or> tick \<le> 0"
    then have "\<exists>msg. main v l tick t0 rs = BadParameter msg"
      by (auto simp: main_def validate_duration_def split: sum.splits error.splits)
    then show "(\<exists>msg. main v l tick t0 rs = BadParameter msg) \<and>
      exit_status (main v l tick t0 rs) = Some 2 \<and>
      shown (main v l tick t0 rs) = []"
      by (auto simp: exit_status_def shown_def)
  qed
  have b: "parse_duration v = Inr n \<and> 0 < n \<and> 0 < tick \<longrightarrow>
      main v l tick t0 rs = Returned (run_timer n l tick t0 rs) \<and>
      shown (main v l tick t0 rs) = iterations (run_timer n l tick t0 rs) \<and>
      (ended (run_timer n l tick t0 rs) = Quit \<or> ended (run_timer n l tick t0 rs) = Expired \<longrightarrow>
         exit_status (main v l tick t0 rs) = Some 0)" for v l tick t0 rs n
  proof
    assume h: "parse_duration v = Inr n \<and> 0 < n \<and> 0 < tick"
    then have m: "main v l tick t0 rs = Returned (run_timer n l tick t0 rs)"
      by (simp add: main_def validate_duration_def)
    show "main v l tick t0 rs = Returned (run_timer n l tick t0 rs) \<and>
      shown (main v l tick t0 rs) = iterations (run_timer n l tick t0 rs) \<and>
      (ended (run_timer n l tick t0 rs) = Quit \<or> ended (run_timer n l tick t0 rs) = Expired \<longrightarrow>
         exit_status (main v l tick t0 rs) = Some 0)"
      unfolding m by (auto simp: exit_status_def shown_def)
  qed
  show ?thesis by (intro conjI allI a b)
qed

theorem invalid_arguments_are_usage_errors_witness:
  "parse_duration ''abc'' = Inl (ValueError ''Invalid duration: abc'') \<and>
   exit_status (main ''abc'' ''Countdown'' 0.1 0 [(1, None)]) = Some 2 \<and>
   shown (main ''abc'' ''Countdown'' 0.1 0 [(1, None)]) = [] \<and>
   parse_duration ''0'' = Inr 0 \<and>
   exit_status (main ''0'' ''Countdown'' 0.1 0 [(1, None)]) = Some 2 \<and>
   exit_status (main ''5'' ''Countdown'' 0 0 [(1, None)]) = Some 2 \<and>
   parse_duration ''5'' = Inr 5 \<and> (0::int) < 5 \<and> (0::real) < 0.1 \<and>
   main ''5'' ''Countdown'' 0.1 0 [(1, None), (2, Some ''q'')]
     = Returned (run_timer 5 ''Countdown'' 0.1 0 [(1, None), (2, Some ''q'')]) \<and>
   ended (run_timer 5 ''Countdown'' 0.1 0 [(1, None), (2, Some ''q'')]) = Quit \<and>
   exit_status (main ''5'' ''Countdown'' 0.1 0 [(1, None), (2, Some ''q'')]) = Some 0"
proof -
  note T = invalid_arguments_are_usage_errors
  note T1 = T[THEN conjunct1, rule_format]
  note T2 = T[THEN conjunct2, rule_format]
  have p1: "parse_duration ''abc'' = Inl (ValueError ''Invalid duration: abc'')"
    by (simp add: parse_eval)
  have p2: "parse_duration ''0'' = Inr 0" by (simp add: parse_eval)
  have p3: "parse_duration ''5'' = Inr 5" by (simp add: parse_eval)
  have a: "exit_status (main ''abc'' ''Countdown'' 0.1 0 [(1, None)]) = Some 2"
    "shown (main ''abc'' ''Countdown'' 0.1 0 [(1, None)]) = []"
    using T1[of "''abc''" "0.1" "''Countdown''" 0 "[(1, None)]"] p1 by blast+
  have b: "exit_status (main ''0'' ''Countdown'' 0.1 0 [(1, None)]) = Some 2"
    using T1[of "''0''" "0.1" "''Countdown''" 0 "[(1, None)]"] p2 by simp
  have c: "exit_status (main ''5'' ''Countdown'' 0 0 [(1, None)]) = Some 2"
    using T1[of "''5''" 0 "''Countdown''" 0 "[(1, None)]"] by simp
  have h: "parse_duration ''5'' = Inr 5 \<and> (0::int) < 5 \<and> (0::real) < 0.1"
    using p3 by simp
  note V = T2[OF h, of "''Countdown''" 0 "[(1, None), (2, Some ''q'')]"]
  have q: "ended (run_timer 5 ''Countdown'' 0.1 0 [(1, None), (2, Some ''q'')]) = Quit"
    by (simp add: run_eval)
  have d: "exit_status (main ''5'' ''Countdown'' 0.1 0 [(1, None), (2, Some ''q'')]) = Some 0"
    using V[THEN conjunct2, THEN conjunct2] q by blast
  have n: "(0::int) < 5" "(0::real) < 0.1" by simp_all
  show ?thesis by (intro conjI p1 a p2 b c p3 n V[THEN conjunct1] q d)
qed

text \<open>
  C10. On every iteration the progress task is updated with the smaller of \<open>elapsed\<close> and the
  duration as its completed amount, so the completed amount never exceeds the total of the
  task; on the last iteration, where the remaining time is 0 or negative, it is the total.
\<close>

theorem completed_never_exceeds_total:
  "\<forall>d l tick t0 rs. \<forall>it \<in> set (iterations (run_timer d l tick t0 rs)).
     it_completed it = min (it_elapsed it) (real_of_int d) \<and> it_total it = d \<and>
     it_completed it \<le> real_of_int (it_total it) \<and>
     (it_remaining it \<le> 0 \<longrightarrow> it_completed it = real_of_int (it_total it))"
proof (intro allI ballI)
  fix d l tick t0 rs it
  assume "it \<in> set (iterations (run_timer d l tick t0 rs))"
  then have "it = iteration_of d l (it_state it) (it_now it)"
    unfolding run_timer_iterations by (rule run_loop_iterations)
  then obtain st now where it: "it = iteration_of d l st now" by blast
  show "it_completed it = min (it_elapsed it) (real_of_int d) \<and> it_total it = d \<and>
     it_completed it \<le> real_of_int (it_total it) \<and>
     (it_remaining it \<le> 0 \<longrightarrow> it_completed it = real_of_int (it_total it))"
    unfolding it by simp
qed

theorem completed_never_exceeds_total_witness:
  "iteration_of 3 ''x'' \<lparr>start = 10, elapsed_before_pause = 0, paused = False\<rparr> 14
     \<in> set (iterations (run_timer 3 ''x'' 0.1 10 [(10.5, None), (14, None)])) \<and>
   it_remaining (iteration_of 3 ''x'' \<lparr>start = 10, elapsed_before_pause = 0, paused = False\<rparr> 14) \<le> 0 \<and>
   it_elapsed (iteration_of 3 ''x'' \<lparr>start = 10, elapsed_before_pause = 0, paused = False\<rparr> 14) = 4 \<and>
   it_completed (iteration_of 3 ''x'' \<lparr>start = 10, elapsed_before_pause = 0, paused = False\<rparr> 14) = 3"
proof -
  let ?st = "\<lparr>start = 10, elapsed_before_pause = 0, paused = False\<rparr>"
  let ?it = "iteration_of 3 ''x'' ?st 14"
  have m: "?it \<in> set (iterations (run_timer 3 ''x'' 0.1 10 [(10.5, None), (14, None)]))"
    by (simp add: run_timer_iterations run_loop_Cons handle_key_none elapsed_at_def)
  have r: "it_remaining ?it \<le> 0" by (simp add: elapsed_at_def)
  have e: "it_elapsed ?it = 4" by (simp add: elapsed_at_def)
  from completed_never_exceeds_total[rule_format, OF m] r
  have "it_completed ?it = real_of_int (it_total ?it)" by blast
  then have c: "it_completed ?it = 3" by simp
  show ?thesis by (intro conjI m r e c)
qed

end
